(* ===== verification/Prelude.thy ===== *)
theory Prelude
  imports Main "HOL-Library.Word" "HOL-Library.Sublist"
begin

text \<open>
  Shared vocabulary of the development: the names of the model's basic types,
  lists used as kernel arrays indexed by small numbers (a descriptor table is
  one), the helper that ignores an error result the way C code ignores a
  return value, and the joining of an argument vector into the command line
  that a process listing shows.
\<close>

named_theorems slot_simps "equations of the list-as-array operations"

type_synonym fd = nat
type_synonym pid = nat
type_synonym pipe_id = "nat \<times> nat"

section \<open>Lists as kernel arrays\<close>

text \<open>
  A kernel table is a list of optional entries; an index at or beyond the end
  of the list is an empty slot. Storing beyond the end extends the list with
  empty slots.
\<close>

definition slot_get :: "'a option list \<Rightarrow> nat \<Rightarrow> 'a option" where
  "slot_get xs n = (if n < length xs then xs ! n else None)"

definition slot_set :: "'a option list \<Rightarrow> nat \<Rightarrow> 'a option \<Rightarrow> 'a option list" where
  "slot_set xs n v =
     (if n < length xs then xs[n := v] else xs @ replicate (n - length xs) None @ [v])"

text \<open>The lowest empty slot (the end of the list when every slot is used).\<close>

fun first_free :: "'a option list \<Rightarrow> nat" where
  "first_free [] = 0"
| "first_free (x # xs) = (if x = None then 0 else Suc (first_free xs))"

lemma slot_get_slot_set [slot_simps]:
  "slot_get (slot_set xs n v) = (slot_get xs)(n := v)"
proof
  fix m
  show "slot_get (slot_set xs n v) m = ((slot_get xs)(n := v)) m"
    by (auto simp: slot_get_def slot_set_def nth_append nth_list_update)
qed

lemma slot_get_Nil [simp]: "slot_get [] n = None"
  by (simp add: slot_get_def)

lemma slot_get_Cons_0 [simp]: "slot_get (x # xs) 0 = x"
  by (simp add: slot_get_def)

lemma slot_get_Cons_Suc [simp]: "slot_get (x # xs) (Suc n) = slot_get xs n"
  by (simp add: slot_get_def)

lemma first_free_empty [slot_simps]: "slot_get xs (first_free xs) = None"
  by (induction xs) auto

lemma below_first_free [slot_simps]:
  "m < first_free xs \<Longrightarrow> slot_get xs m \<noteq> None"
proof (induction xs arbitrary: m)
  case Nil
  then show ?case by simp
next
  case (Cons x xs)
  then show ?case by (cases m) (auto split: if_splits)
qed

text \<open>
  The lowest empty slot depends only on which slots are used: the abstraction
  \<open>slot_get\<close> determines it. This is what lets the proofs reason about the map
  view of a table alone.
\<close>

lemma first_free_Least: "first_free xs = (LEAST n. slot_get xs n = None)"
  by (rule Least_equality [symmetric]) (auto simp: first_free_empty dest: below_first_free
      intro: leI)

lemma first_free_cong:
  "slot_get xs = slot_get ys \<Longrightarrow> first_free xs = first_free ys"
  by (simp add: first_free_Least)

lemma first_free_le:
  "slot_get xs n = None \<Longrightarrow> first_free xs \<le> n"
  using below_first_free not_le by blast

text \<open>The entries of a table are exactly the values its used slots hold.\<close>

lemma slot_in_set: "slot_get t n = Some x \<Longrightarrow> Some x \<in> set t"
  by (auto simp: slot_get_def in_set_conv_nth split: if_splits)

lemma in_set_slot: "Some x \<in> set t \<Longrightarrow> \<exists>n. slot_get t n = Some x"
  by (auto simp: slot_get_def in_set_conv_nth)

lemma set_update_all:
  assumes "\<forall>y \<in> set xs. P y" "i < length xs \<Longrightarrow> P x"
  shows "\<forall>y \<in> set (xs[i := x]). P y"
proof (cases "i < length xs")
  case True
  then show ?thesis using assms set_update_subset_insert [of xs i x] by blast
next
  case False
  then show ?thesis using assms(1) by (simp add: list_update_beyond not_less)
qed

lemma set_slot_set: "set (slot_set xs n v) \<subseteq> insert v (insert None (set xs))"
  by (auto simp: slot_set_def dest: set_update_subset_insert [THEN subsetD])

section \<open>Ignored error results\<close>

text \<open>
  C code that calls \<open>close\<close> or \<open>dup2\<close> and drops the return value keeps
  whatever state the call leaves, which on an error is the state before it.
\<close>

fun keep :: "'e + 'a \<Rightarrow> 'a \<Rightarrow> 'a" where
  "keep (Inl _) d = d"
| "keep (Inr x) _ = x"

section \<open>Command lines\<close>

text \<open>An argument vector as the process listing prints it: words joined by one space.\<close>

fun unwords :: "string list \<Rightarrow> string" where
  "unwords [] = []"
| "unwords [w] = w"
| "unwords (w # v # ws) = w @ '' '' @ unwords (v # ws)"

lemma unwords_Cons_nonempty:
  "xs \<noteq> [] \<Longrightarrow> unwords (w # xs) = w @ '' '' @ unwords xs"
  by (cases xs) simp_all

lemma sublist_unwords_last:
  "sublist t (unwords (ws @ [t]))"
proof (induction ws)
  case Nil
  then show ?case by simp
next
  case (Cons w ws)
  then have "sublist t ((w @ '' '') @ unwords (ws @ [t]))"
    by (meson sublist_append_leftI sublist_order.order_trans)
  then show ?case by (simp add: unwords_Cons_nonempty)
qed

end
