(* ===== verification/FdTable.thy ===== *)
theory FdTable
  imports Prelude
begin

text \<open>
  The per-process descriptor table and the three descriptor system calls that
  \<open>main\<close> in src/Program1/Cpp/processes.cpp issues: \<open>pipe\<close>, \<open>close\<close> and
  \<open>dup2\<close>. The table is a list of optional open-file references indexed by
  descriptor number, as the kernel's array is. A new descriptor is always the
  lowest unused number (POSIX, XSH 2.14 "File Descriptor Allocation"), which is
  what decides where \<open>pipe\<close> puts its two ends. Errors are values of a sum type:
  the program ignores the results of \<open>close\<close> and \<open>dup2\<close>, and the process
  model applies them with \<open>keep\<close>. The lemmas show that the list table refines
  the abstract map \<open>fd \<rightharpoonup> ofile\<close> with the POSIX behaviour of each call.
\<close>

section \<open>Open files and errors\<close>

text \<open>
  What a descriptor refers to: a terminal or file the supervisor inherited
  (numbered by the environment), or the read or write end of a pipe the
  program created.
\<close>

datatype ofile = Term nat | PipeR pipe_id | PipeW pipe_id

type_synonym fdtable = "ofile option list"

datatype errno = EBADF | EPIPE

section \<open>The system calls\<close>

text \<open>\<open>close(n)\<close>: \<open>EBADF\<close> when \<open>n\<close> is not open.\<close>

definition fd_close :: "fd \<Rightarrow> fdtable \<Rightarrow> errno + fdtable" where
  "fd_close n t = (case slot_get t n of None \<Rightarrow> Inl EBADF | Some _ \<Rightarrow> Inr (slot_set t n None))"

text \<open>
  \<open>dup2(old, new)\<close>: \<open>EBADF\<close> when \<open>old\<close> is not open; when \<open>old = new\<close> it
  does nothing and succeeds; otherwise \<open>new\<close> is silently closed if open and made
  to refer to the file of \<open>old\<close>.
\<close>

definition fd_dup2 :: "fd \<Rightarrow> fd \<Rightarrow> fdtable \<Rightarrow> errno + fdtable" where
  "fd_dup2 old new t =
     (case slot_get t old of
        None \<Rightarrow> Inl EBADF
      | Some f \<Rightarrow> if old = new then Inr t else Inr (slot_set t new (Some f)))"

text \<open>
  \<open>pipe(fds)\<close> on success: the read end takes the lowest free descriptor and the
  write end the lowest one after that; \<open>fds[0]\<close> and \<open>fds[1]\<close> receive them.
  The failure of the call (\<open>EMFILE\<close>, \<open>ENFILE\<close>) is decided by the process
  model's environment, which then does not call this function.
\<close>

definition fd_pipe :: "pipe_id \<Rightarrow> fdtable \<Rightarrow> (fd \<times> fd) \<times> fdtable" where
  "fd_pipe p t =
     (let r = first_free t;
          t1 = slot_set t r (Some (PipeR p));
          w = first_free t1
      in ((r, w), slot_set t1 w (Some (PipeW p))))"

section \<open>The abstract map view\<close>

text \<open>
  The abstract table is the map \<open>slot_get t\<close>. The POSIX behaviour of each call
  on that map, with the return value ignored as \<open>main\<close> ignores it:
\<close>

definition close_map :: "fd \<Rightarrow> (fd \<rightharpoonup> ofile) \<Rightarrow> (fd \<rightharpoonup> ofile)" where
  "close_map n m = m(n := None)"

definition dup2_map :: "fd \<Rightarrow> fd \<Rightarrow> (fd \<rightharpoonup> ofile) \<Rightarrow> (fd \<rightharpoonup> ofile)" where
  "dup2_map old new m = (case m old of None \<Rightarrow> m | Some f \<Rightarrow> m(new \<mapsto> f))"

lemma close_refines [slot_simps]:
  "slot_get (keep (fd_close n t) t) = close_map n (slot_get t)"
  by (auto simp: fd_close_def close_map_def slot_get_slot_set split: option.splits)

lemma dup2_refines [slot_simps]:
  "slot_get (keep (fd_dup2 old new t) t) = dup2_map old new (slot_get t)"
  by (auto simp: fd_dup2_def dup2_map_def slot_get_slot_set fun_upd_idem split: option.splits)

lemma close_map_apply [slot_simps]: "close_map n m k = (if k = n then None else m k)"
  by (simp add: close_map_def)

lemma dup2_map_apply [slot_simps]:
  "dup2_map old new m k = (if k = new \<and> m old \<noteq> None then m old else m k)"
  by (auto simp: dup2_map_def split: option.splits)

text \<open>\<open>dup2\<close> onto the same descriptor changes nothing, even when it is open.\<close>

lemma dup2_same: "keep (fd_dup2 n n t) t = t"
  by (simp add: fd_dup2_def split: option.splits)

lemma close_EBADF: "slot_get t n = None \<Longrightarrow> fd_close n t = Inl EBADF"
  by (simp add: fd_close_def)

lemma dup2_EBADF: "slot_get t old = None \<Longrightarrow> fd_dup2 old new t = Inl EBADF"
  by (simp add: fd_dup2_def)

section \<open>Pipe allocation\<close>

abbreviation pipe_rd :: "pipe_id \<Rightarrow> fdtable \<Rightarrow> fd" where
  "pipe_rd p t \<equiv> fst (fst (fd_pipe p t))"

abbreviation pipe_wr :: "pipe_id \<Rightarrow> fdtable \<Rightarrow> fd" where
  "pipe_wr p t \<equiv> snd (fst (fd_pipe p t))"

abbreviation pipe_tbl :: "pipe_id \<Rightarrow> fdtable \<Rightarrow> fdtable" where
  "pipe_tbl p t \<equiv> snd (fd_pipe p t)"

lemma pipe_rd_free [slot_simps]: "slot_get t (pipe_rd p t) = None"
  by (simp add: fd_pipe_def Let_def first_free_empty)

lemma pipe_wr_free [slot_simps]: "slot_get t (pipe_wr p t) = None"
proof -
  let ?r = "first_free t"
  have "slot_get (slot_set t ?r (Some (PipeR p))) (first_free (slot_set t ?r (Some (PipeR p)))) = None"
    by (rule first_free_empty)
  then show ?thesis
    by (simp add: fd_pipe_def Let_def slot_get_slot_set split: if_splits)
qed

lemma pipe_ends_distinct [slot_simps]: "pipe_rd p t \<noteq> pipe_wr p t"
proof -
  let ?t1 = "slot_set t (first_free t) (Some (PipeR p))"
  have "slot_get ?t1 (first_free ?t1) = None" by (rule first_free_empty)
  then show ?thesis
    by (auto simp: fd_pipe_def Let_def slot_get_slot_set split: if_splits)
qed

lemma pipe_rd_least: "pipe_rd p t = (LEAST n. slot_get t n = None)"
  by (simp add: fd_pipe_def Let_def first_free_Least)

lemma pipe_refines [slot_simps]:
  "slot_get (pipe_tbl p t) =
     (slot_get t)(pipe_rd p t \<mapsto> PipeR p, pipe_wr p t \<mapsto> PipeW p)"
  by (simp add: fd_pipe_def Let_def slot_get_slot_set)

text \<open>
  The descriptors that \<open>pipe\<close> returns are determined by the used slots alone, so
  two tables with the same map view get the same descriptors.
\<close>

lemma pipe_fds_cong:
  assumes "slot_get t = slot_get u"
  shows "fst (fd_pipe p t) = fst (fd_pipe p u)"
proof -
  have r: "first_free t = first_free u" using assms by (rule first_free_cong)
  have "slot_get (slot_set t (first_free t) (Some (PipeR p)))
      = slot_get (slot_set u (first_free u) (Some (PipeR p)))"
    using assms r by (simp add: slot_get_slot_set)
  then have "first_free (slot_set t (first_free t) (Some (PipeR p)))
      = first_free (slot_set u (first_free u) (Some (PipeR p)))"
    by (rule first_free_cong)
  with r show ?thesis by (simp add: fd_pipe_def Let_def)
qed

text \<open>
  With descriptors 0, 1 and 2 open, both ends of a new pipe land above 2: the
  condition under which the program's \<open>dup2\<close> calls never alias a pipe end.
\<close>

lemma pipe_above_std:
  assumes "\<forall>n < 3. slot_get t n \<noteq> None"
  shows "3 \<le> pipe_rd p t \<and> 3 \<le> pipe_wr p t"
  using assms pipe_rd_free [of t p] pipe_wr_free [of t p] not_le by blast

end
