(* ===== verification/Kernel.thy ===== *)
theory Kernel
  imports FdTable
begin

text \<open>
  The kernel state the program runs on: a process table (index = pid, a
  \<open>fork\<close> appends), the contents of every pipe, and what has been written to
  terminals. A process is a record of its program point, exit status, descriptor
  table, the C local \<open>int fds[2][2]\<close> of \<open>main\<close> (copied by \<open>fork\<close> with the
  rest of the memory), its command line and its parent. The program point has a
  type variable \<open>'c\<close>: the process model instantiates it with the locations of
  \<open>main\<close>, and everything here holds for any program.

  Pipes carry lines in order (the FIFO guarantee of the spec); their buffers are
  unbounded, so a write to a pipe with a reader never blocks. A read of an empty
  pipe blocks while some process still holds a write end, and returns end of file
  once none does. A write to a pipe that no process holds open for reading is
  \<open>EPIPE\<close>, and the writer dies of \<open>SIGPIPE\<close> (signal 13), its default action.
\<close>

section \<open>Processes\<close>

datatype status = Exited "8 word" | Signaled nat

text \<open>\<open>exit(n)\<close> reports the low eight bits of \<open>n\<close> to the parent.\<close>

definition exit_status :: "int \<Rightarrow> status" where
  "exit_status n = Exited (word_of_int n)"

abbreviation sigpipe :: status where
  "sigpipe \<equiv> Signaled 13"

record 'c proc =
  code :: 'c
  pexit :: "status option"
  fdt :: fdtable
  fds :: "nat \<Rightarrow> (fd \<times> fd) option"
  cmdline :: "string list"
  ppid :: "pid option"

record 'c kstate =
  procs :: "'c proc list"
  bufs :: "pipe_id \<Rightarrow> string list"
  out :: "(nat \<times> string) list"

definition upd_proc :: "pid \<Rightarrow> ('c proc \<Rightarrow> 'c proc) \<Rightarrow> 'c kstate \<Rightarrow> 'c kstate" where
  "upd_proc i f s = s\<lparr>procs := (procs s)[i := f (procs s ! i)]\<rparr>"

definition goto :: "pid \<Rightarrow> 'c \<Rightarrow> 'c kstate \<Rightarrow> 'c kstate" where
  "goto i l s = upd_proc i (\<lambda>p. p\<lparr>code := l\<rparr>) s"

text \<open>Process exit: the status is recorded and every descriptor is closed.\<close>

definition exit_proc :: "pid \<Rightarrow> status \<Rightarrow> 'c kstate \<Rightarrow> 'c kstate" where
  "exit_proc i st s = upd_proc i (\<lambda>p. p\<lparr>pexit := Some st, fdt := []\<rparr>) s"

text \<open>
  \<open>fork()\<close> by process \<open>i\<close>: the child gets the next pid and a copy of the
  parent's memory and descriptors, and continues at \<open>l\<close>.
\<close>

definition fork_proc :: "pid \<Rightarrow> 'c \<Rightarrow> 'c kstate \<Rightarrow> 'c kstate" where
  "fork_proc i l s = s\<lparr>procs := procs s @ [(procs s ! i)\<lparr>code := l, ppid := Some i\<rparr>]\<rparr>"

text \<open>Some process has a descriptor referring to \<open>f\<close>.\<close>

definition holds :: "'c kstate \<Rightarrow> ofile \<Rightarrow> bool" where
  "holds s f \<longleftrightarrow> (\<exists>q \<in> set (procs s). Some f \<in> set (fdt q))"

section \<open>Reading and writing descriptors\<close>

datatype 'a wres = WOk 'a | WEpipe | WEbadf

text \<open>\<open>write(n, line)\<close> by process \<open>i\<close>.\<close>

definition write_fd :: "pid \<Rightarrow> fd \<Rightarrow> string \<Rightarrow> 'c kstate \<Rightarrow> 'c kstate wres" where
  "write_fd i n line s =
     (case slot_get (fdt (procs s ! i)) n of
        Some (Term k) \<Rightarrow> WOk (s\<lparr>out := out s @ [(k, line)]\<rparr>)
      | Some (PipeW p) \<Rightarrow>
          if holds s (PipeR p) then WOk (s\<lparr>bufs := (bufs s)(p := bufs s p @ [line])\<rparr>)
          else WEpipe
      | _ \<Rightarrow> WEbadf)"

datatype rres = RLine string | REof | RBlock | RErr

text \<open>
  \<open>read(n)\<close> of one line by process \<open>i\<close>. A terminal or file the environment
  provides is read as an empty file (no stage of this program reads one when the
  descriptors are wired as intended).
\<close>

definition read_fd :: "pid \<Rightarrow> fd \<Rightarrow> 'c kstate \<Rightarrow> rres \<times> 'c kstate" where
  "read_fd i n s =
     (case slot_get (fdt (procs s ! i)) n of
        Some (PipeR p) \<Rightarrow>
          (case bufs s p of
             l # ls \<Rightarrow> (RLine l, s\<lparr>bufs := (bufs s)(p := ls)\<rparr>)
           | [] \<Rightarrow> if holds s (PipeW p) then (RBlock, s) else (REof, s))
      | Some (Term k) \<Rightarrow> (REof, s)
      | _ \<Rightarrow> (RErr, s))"

text \<open>
  A message written by the program itself (\<open>cout\<close>, \<open>cerr\<close>, \<open>perror\<close>), whose
  result it ignores: then the continuation \<open>k\<close> runs, unless the write raised
  \<open>SIGPIPE\<close>, which kills the writer.
\<close>

definition say :: "pid \<Rightarrow> fd \<Rightarrow> string \<Rightarrow> ('c kstate \<Rightarrow> 'c kstate) \<Rightarrow> 'c kstate \<Rightarrow> 'c kstate" where
  "say i n msg k s =
     (case write_fd i n msg s of
        WOk s' \<Rightarrow> k s'
      | WEpipe \<Rightarrow> exit_proc i sigpipe s
      | WEbadf \<Rightarrow> k s)"

section \<open>Frame lemmas\<close>

named_theorems kernel_simps "how the kernel operations change the process table"

lemma exit_status_minus_one [kernel_simps]: "exit_status (-1) = Exited 255"
  by (simp add: exit_status_def)

lemma exit_status_zero [kernel_simps]: "exit_status 0 = Exited 0"
  by (simp add: exit_status_def)

lemma procs_upd_proc [kernel_simps]:
  "procs (upd_proc i f s) = (procs s)[i := f (procs s ! i)]"
  by (simp add: upd_proc_def)

lemma procs_goto [kernel_simps]:
  "procs (goto i l s) = (procs s)[i := (procs s ! i)\<lparr>code := l\<rparr>]"
  by (simp add: goto_def upd_proc_def)

lemma procs_exit_proc [kernel_simps]:
  "procs (exit_proc i st s) = (procs s)[i := (procs s ! i)\<lparr>pexit := Some st, fdt := []\<rparr>]"
  by (simp add: exit_proc_def upd_proc_def)

lemma procs_fork_proc [kernel_simps]:
  "procs (fork_proc i l s) = procs s @ [(procs s ! i)\<lparr>code := l, ppid := Some i\<rparr>]"
  by (simp add: fork_proc_def)

lemma write_fd_procs: "write_fd i n m s = WOk s' \<Longrightarrow> procs s' = procs s"
  unfolding write_fd_def
  by (cases "slot_get (fdt (procs s ! i)) n") (auto split: ofile.splits if_splits)

lemma read_fd_procs [kernel_simps]: "procs (snd (read_fd i n s)) = procs s"
  by (auto simp: read_fd_def split: option.splits ofile.splits list.splits)

text \<open>
  A continuation whose effect on the process table depends on the table alone
  (as \<open>goto\<close> and \<open>exit_proc\<close> do) sees the same table after a message: the
  message changes only the output or a pipe, or kills the writer.
\<close>

definition procs_only :: "('c kstate \<Rightarrow> 'c kstate) \<Rightarrow> bool" where
  "procs_only k \<longleftrightarrow> (\<forall>s s'. procs s = procs s' \<longrightarrow> procs (k s) = procs (k s'))"

lemma procs_only_goto [kernel_simps]: "procs_only (goto i l)"
  by (simp add: procs_only_def procs_goto)

lemma procs_only_exit [kernel_simps]: "procs_only (exit_proc i st)"
  by (simp add: procs_only_def procs_exit_proc)

lemma procs_say:
  assumes "procs_only k"
  shows "procs (say i n msg k s) = procs (k s) \<or> procs (say i n msg k s) = procs (exit_proc i sigpipe s)"
proof (cases "write_fd i n msg s")
  case (WOk s')
  then have "procs s' = procs s" by (rule write_fd_procs)
  with assms have "procs (k s') = procs (k s)" unfolding procs_only_def by blast
  with WOk show ?thesis by (simp add: say_def)
qed (simp_all add: say_def)

text \<open>A message to a terminal appends exactly that line to the output.\<close>

lemma say_Term:
  "slot_get (fdt (procs s ! i)) n = Some (Term k) \<Longrightarrow>
   say i n msg f s = f (s\<lparr>out := out s @ [(k, msg)]\<rparr>)"
  by (simp add: say_def write_fd_def)

end
