(* ===== verification/Commands.thy ===== *)
theory Commands
  imports Kernel
begin

text \<open>
  The three external programs the stages become after \<open>execlp\<close> (lines 88, 99
  and 108 of src/Program1/Cpp/processes.cpp). They are not part of the repository;
  the spec (section 6) treats them as opaque collaborators, and this theory
  gives each the behaviour the pipeline relies on, one line at a time:
  \<^item> \<open>ps aux\<close> takes a snapshot of the process table when it starts (a line per
    live process, its command line, after the lines of the rest of the system)
    and writes it to its standard output;
  \<^item> \<open>grep t\<close> copies to its standard output the lines of its standard input
    that contain \<open>t\<close> (a fixed-string match: the model does not interpret
    regular-expression metacharacters) and exits at end of input, with status 0
    when a line matched and 1 otherwise;
  \<^item> \<open>wc -l\<close> counts the lines of its standard input and prints the count in
    decimal at end of input.
  A failed read or write ends the command with the status the real tool uses; a
  write to a pipe without readers kills it with \<open>SIGPIPE\<close>.
\<close>

datatype cmd =
    Ps "string list" nat    \<comment> \<open>the snapshot and the number of lines written so far\<close>
  | Grep string bool        \<comment> \<open>the pattern and whether a line has matched\<close>
  | Wc nat                  \<comment> \<open>the lines counted so far\<close>

datatype cmd_next = Cont cmd | Stop status | Blocked

text \<open>Decimal digits of a count, as \<open>wc\<close> prints it.\<close>

fun dec :: "nat \<Rightarrow> string" where
  "dec n = (if n < 10 then [char_of (48 + n)] else dec (n div 10) @ [char_of (48 + n mod 10)])"

declare dec.simps [simp del]

text \<open>The snapshot \<open>ps aux\<close> takes: the environment's lines, then every live process.\<close>

definition ps_listing :: "string list \<Rightarrow> 'c kstate \<Rightarrow> string list" where
  "ps_listing others s = others @ map (\<lambda>q. unwords (cmdline q)) (filter (\<lambda>q. pexit q = None) (procs s))"

text \<open>One step of a running command: process \<open>i\<close> in state \<open>c\<close>.\<close>

definition cmd_step :: "pid \<Rightarrow> cmd \<Rightarrow> 'c kstate \<Rightarrow> cmd_next \<times> 'c kstate" where
  "cmd_step i c s =
     (case c of
        Ps ls k \<Rightarrow>
          if k < length ls then
            (case write_fd i 1 (ls ! k) s of
               WOk s' \<Rightarrow> (Cont (Ps ls (Suc k)), s')
             | WEpipe \<Rightarrow> (Stop sigpipe, s)
             | WEbadf \<Rightarrow> (Stop (Exited 1), s))
          else (Stop (Exited 0), s)
      | Grep t m \<Rightarrow>
          (case read_fd i 0 s of
             (RLine l, s') \<Rightarrow>
               if sublist t l then
                 (case write_fd i 1 l s' of
                    WOk s'' \<Rightarrow> (Cont (Grep t True), s'')
                  | WEpipe \<Rightarrow> (Stop sigpipe, s')
                  | WEbadf \<Rightarrow> (Stop (Exited 2), s'))
               else (Cont (Grep t m), s')
           | (REof, s') \<Rightarrow> (Stop (Exited (if m then 0 else 1)), s')
           | (RBlock, _) \<Rightarrow> (Blocked, s)
           | (RErr, s') \<Rightarrow> (Stop (Exited 2), s'))
      | Wc n \<Rightarrow>
          (case read_fd i 0 s of
             (RLine _, s') \<Rightarrow> (Cont (Wc (Suc n)), s')
           | (REof, s') \<Rightarrow>
               (case write_fd i 1 (dec n) s' of
                  WOk s'' \<Rightarrow> (Stop (Exited 0), s'')
                | WEpipe \<Rightarrow> (Stop sigpipe, s')
                | WEbadf \<Rightarrow> (Stop (Exited 1), s'))
           | (RBlock, _) \<Rightarrow> (Blocked, s)
           | (RErr, s') \<Rightarrow> (Stop (Exited 1), s')))"

section \<open>Properties of the commands\<close>

lemma cmd_step_procs [kernel_simps]: "procs (snd (cmd_step i c s)) = procs s"
proof -
  obtain r s1 where rd: "read_fd i 0 s = (r, s1)" by (cases "read_fd i 0 s")
  have s1: "procs s1 = procs s" using read_fd_procs [of i 0 s] rd by simp
  have w: "procs s' = procs s" if "write_fd i 1 l s1 = WOk s'" for l s'
    using write_fd_procs [OF that] s1 by simp
  have w0: "procs s' = procs s" if "write_fd i 1 l s = WOk s'" for l s'
    using write_fd_procs [OF that] .
  show ?thesis
  proof (cases c)
    case (Ps ls k)
    then show ?thesis using w0 by (auto simp: cmd_step_def split: wres.splits)
  next
    case (Grep t m)
    then show ?thesis using rd s1 w
      by (cases r) (auto simp: cmd_step_def split: wres.splits)
  next
    case (Wc n)
    then show ?thesis using rd s1 w
      by (cases r) (auto simp: cmd_step_def split: wres.splits)
  qed
qed

text \<open>
  A command blocks only on a read: \<open>ps\<close> never does, and \<open>grep\<close> and \<open>wc\<close>
  do only when their standard input is a pipe that is empty while some process
  still holds its write end.
\<close>

lemma cmd_step_Blocked:
  assumes "fst (cmd_step i c s) = Blocked"
  shows "\<exists>p. slot_get (fdt (procs s ! i)) 0 = Some (PipeR p) \<and> bufs s p = [] \<and> holds s (PipeW p)"
proof -
  have "fst (read_fd i 0 s) = RBlock"
    using assms unfolding cmd_step_def
    by (auto split: cmd.splits wres.splits rres.splits prod.splits if_splits)
  then show ?thesis
    by (auto simp: read_fd_def split: option.splits ofile.splits list.splits if_splits)
qed

text \<open>A command that continues stays the same program: only its progress changes.\<close>

lemma cmd_step_Cont:
  assumes "fst (cmd_step i m s) = Cont m'"
  shows "(\<exists>ls k. m = Ps ls k \<and> m' = Ps ls (Suc k)) \<or> (\<exists>t b b'. m = Grep t b \<and> m' = Grep t b')
    \<or> (\<exists>n. m = Wc n \<and> m' = Wc (Suc n))"
  using assms unfolding cmd_step_def
  by (auto split: cmd.splits wres.splits rres.splits prod.splits if_splits)

text \<open>
  The printed count reads back as the count: decimal printing has a left inverse,
  so equal output lines mean equal counts.
\<close>

definition undec :: "string \<Rightarrow> nat" where
  "undec cs = foldl (\<lambda>acc c. 10 * acc + (of_char c - 48)) 0 cs"

lemma of_char_digit: "k < (10::nat) \<Longrightarrow> of_char (char_of (48 + k) :: char) = (48 + k :: nat)"
  by (simp add: of_char_of)

lemma undec_dec: "undec (dec n) = n"
proof (induction n rule: dec.induct)
  case (1 n)
  show ?case
  proof (cases "n < 10")
    case True
    then show ?thesis by (subst dec.simps) (simp add: undec_def of_char_digit)
  next
    case False
    then have "undec (dec (n div 10)) = n div 10" using "1" by simp
    with False show ?thesis
      by (subst dec.simps) (simp add: undec_def of_char_digit)
  qed
qed

lemma dec_inj: "dec m = dec n \<Longrightarrow> m = n"
  by (metis undec_dec)

end
