(* ===== verification/Processes.thy ===== *)
theory Processes
  imports Commands
begin

text \<open>
  The program of src/Program1/Cpp/processes.cpp, \<open>main\<close> (lines 48 to 119), as
  a step function over the kernel state. Every process of the pipeline runs the
  same \<open>main\<close>, at its own program point: a constructor of \<open>loc\<close> named after
  the source line of the statement the process executes next, or \<open>Ext c\<close> once
  it has replaced its image by an external command. \<open>exec_loc\<close> has one
  equation per statement, with the statement's system call, its error branch and
  the branch on the \<open>fork\<close> result. The branch on \<open>pid\<close> after \<open>fork\<close> is taken
  at the \<open>fork\<close> itself (the local \<open>pid\<close> is read only there), so the parent
  and the child continue at the first statement of their branch.

  Which system calls fail is decided by the environment, \<open>fails\<close> of the
  configuration, by program point: each point is executed once in a run, so a
  function from points to booleans covers every combination of failures of
  \<open>fork\<close>, \<open>pipe\<close> and \<open>execlp\<close>.

  The processes run concurrently: \<open>step\<close> lets any live process that is not
  blocked take its next step, and \<open>reach\<close> is the set of states of all
  interleavings.
\<close>

section \<open>Program points\<close>

datatype loc =
    L52 \<comment> \<open>supervisor: \<open>if (argc != 2)\<close>\<close>
  | L58 \<comment> \<open>supervisor: \<open>fork()\<close> of the child\<close>
  | L114 \<comment> \<open>supervisor: \<open>wait(NULL)\<close>\<close>
  | L115 \<comment> \<open>supervisor: \<open>cout << "commands completed"\<close>\<close>
  | L118 \<comment> \<open>supervisor: \<open>return 0\<close>\<close>
  | L62 \<comment> \<open>child: \<open>pipe(fds[0])\<close>\<close>
  | L67 \<comment> \<open>child: \<open>fork()\<close> of the grandchild\<close>
  | L105 \<comment> \<open>child: \<open>close(fds[0][1])\<close>\<close>
  | L106 \<comment> \<open>child: \<open>dup2(fds[0][0], STDIN_FILENO)\<close>\<close>
  | L107 \<comment> \<open>child: \<open>close(fds[0][0])\<close>\<close>
  | L108 \<comment> \<open>child: \<open>execlp("wc", "wc", "-l", NULL)\<close>\<close>
  | L72 \<comment> \<open>grandchild: \<open>pipe(fds[1])\<close>\<close>
  | L77 \<comment> \<open>grandchild: \<open>fork()\<close> of the great-grandchild\<close>
  | L93 \<comment> \<open>grandchild: \<open>close(fds[1][1])\<close>\<close>
  | L94 \<comment> \<open>grandchild: \<open>dup2(fds[1][0], STDIN_FILENO)\<close>\<close>
  | L95 \<comment> \<open>grandchild: \<open>close(fds[1][0])\<close>\<close>
  | L96 \<comment> \<open>grandchild: \<open>close(fds[0][0])\<close>\<close>
  | L97 \<comment> \<open>grandchild: \<open>dup2(fds[0][1], STDOUT_FILENO)\<close>\<close>
  | L98 \<comment> \<open>grandchild: \<open>close(fds[0][1])\<close>\<close>
  | L99 \<comment> \<open>grandchild: \<open>execlp("grep", "grep", argv[1], NULL)\<close>\<close>
  | L82 \<comment> \<open>great-grandchild: \<open>close(fds[0][0])\<close>\<close>
  | L83 \<comment> \<open>great-grandchild: \<open>close(fds[0][1])\<close>\<close>
  | L84 \<comment> \<open>great-grandchild: \<open>close(fds[1][0])\<close>\<close>
  | L85 \<comment> \<open>great-grandchild: \<open>dup2(fds[1][1], STDOUT_FILENO)\<close>\<close>
  | L86 \<comment> \<open>great-grandchild: \<open>close(fds[1][1])\<close>\<close>
  | L88 \<comment> \<open>great-grandchild: \<open>execlp("ps", "ps", "aux", NULL)\<close>\<close>
  | Ext cmd \<comment> \<open>the image replaced by an external command\<close>

type_synonym sys = "loc kstate"

record cfg =
  argv :: "string list"      \<comment> \<open>\<open>argv\<close> of \<open>main\<close>; \<open>argc\<close> is its length\<close>
  init_fdt :: fdtable         \<comment> \<open>the descriptors the supervisor inherits\<close>
  others :: "string list"     \<comment> \<open>the process listing's lines for the rest of the system\<close>
  fails :: "loc \<Rightarrow> bool"       \<comment> \<open>the system call at this point fails\<close>

definition init_sys :: "cfg \<Rightarrow> sys" where
  "init_sys c =
     \<lparr>procs = [\<lparr>code = L52, pexit = None, fdt = init_fdt c, fds = (\<lambda>_. None),
                cmdline = argv c, ppid = None\<rparr>],
      bufs = (\<lambda>_. []), out = []\<rparr>"

section \<open>The statements\<close>

text \<open>
  \<open>fds[k][j]\<close> of process \<open>p\<close>: \<open>None\<close> while \<open>pipe(fds[k])\<close> has not
  stored it (C leaves the array uninitialised; a statement that reads an
  uninitialised entry has no step).
\<close>

definition pick :: "nat \<Rightarrow> fd \<times> fd \<Rightarrow> fd" where
  "pick j rw = (if j = 0 then fst rw else snd rw)"

definition fd_of :: "loc proc \<Rightarrow> nat \<Rightarrow> nat \<Rightarrow> fd option" where
  "fd_of p k j = map_option (pick j) (fds p k)"

text \<open>\<open>close(fds[k][j])\<close>, result ignored, then continue at \<open>l\<close>.\<close>

definition do_close :: "pid \<Rightarrow> nat \<Rightarrow> nat \<Rightarrow> loc \<Rightarrow> sys \<Rightarrow> sys option" where
  "do_close i k j l s =
     (case fd_of (procs s ! i) k j of
        None \<Rightarrow> None
      | Some n \<Rightarrow> Some (upd_proc i (\<lambda>p. p\<lparr>fdt := keep (fd_close n (fdt p)) (fdt p), code := l\<rparr>) s))"

text \<open>\<open>dup2(fds[k][j], n)\<close>, result ignored, then continue at \<open>l\<close>.\<close>

definition do_dup2 :: "pid \<Rightarrow> nat \<Rightarrow> nat \<Rightarrow> fd \<Rightarrow> loc \<Rightarrow> sys \<Rightarrow> sys option" where
  "do_dup2 i k j n l s =
     (case fd_of (procs s ! i) k j of
        None \<Rightarrow> None
      | Some m \<Rightarrow> Some (upd_proc i (\<lambda>p. p\<lparr>fdt := keep (fd_dup2 m n (fdt p)) (fdt p), code := l\<rparr>) s))"

text \<open>\<open>perror(msg); exit(-1);\<close>\<close>

definition perror_exit :: "pid \<Rightarrow> string \<Rightarrow> sys \<Rightarrow> sys" where
  "perror_exit i msg s = say i 2 msg (exit_proc i (exit_status (-1))) s"

text \<open>
  \<open>if (pipe(fds[k]) < 0) { perror("pipe error"); exit(-1); }\<close> at point \<open>here\<close>
  in process \<open>i\<close>; the pipe is named by its creator and its slot.
\<close>

definition do_pipe :: "cfg \<Rightarrow> pid \<Rightarrow> nat \<Rightarrow> loc \<Rightarrow> loc \<Rightarrow> sys \<Rightarrow> sys" where
  "do_pipe c i k here l s =
     (if fails c here then perror_exit i ''pipe error'' s
      else upd_proc i (\<lambda>p. p\<lparr>fdt := pipe_tbl (i, k) (fdt p),
                              fds := (fds p)(k := Some (fst (fd_pipe (i, k) (fdt p)))),
                              code := l\<rparr>) s)"

text \<open>
  \<open>if ((pid = fork()) < 0) on_fail else if (pid == 0) child else parent\<close>:
  the child continues at \<open>lc\<close>, the parent at \<open>lp\<close>.
\<close>

definition do_fork :: "cfg \<Rightarrow> pid \<Rightarrow> loc \<Rightarrow> loc \<Rightarrow> loc \<Rightarrow> (sys \<Rightarrow> sys) \<Rightarrow> sys \<Rightarrow> sys" where
  "do_fork c i here lc lp on_fail s =
     (if fails c here then on_fail s else goto i lp (fork_proc i lc s))"

text \<open>
  \<open>execlp(args); perror(msg); exit(-1);\<close>: on success the process keeps its
  pid and descriptors and becomes the command \<open>mk s\<close>, started in the state
  where its command line is already the new one.
\<close>

definition do_exec :: "cfg \<Rightarrow> pid \<Rightarrow> loc \<Rightarrow> string list \<Rightarrow> string \<Rightarrow> (sys \<Rightarrow> cmd) \<Rightarrow> sys \<Rightarrow> sys" where
  "do_exec c i here args msg mk s =
     (if fails c here then perror_exit i msg s
      else (let s1 = upd_proc i (\<lambda>p. p\<lparr>cmdline := args\<rparr>) s in goto i (Ext (mk s1)) s1))"

text \<open>
  \<open>wait(NULL)\<close>: returns at once when the caller has no child (\<open>ECHILD\<close>),
  and otherwise once one of its children has terminated.
\<close>

definition children :: "sys \<Rightarrow> pid \<Rightarrow> pid list" where
  "children s i = filter (\<lambda>j. ppid (procs s ! j) = Some i) [0..<length (procs s)]"

definition do_wait :: "pid \<Rightarrow> loc \<Rightarrow> sys \<Rightarrow> sys option" where
  "do_wait i l s =
     (if children s i = [] \<or> (\<exists>j \<in> set (children s i). pexit (procs s ! j) \<noteq> None)
      then Some (goto i l s) else None)"

text \<open>A running external command takes its step; \<open>None\<close> when it is blocked.\<close>

definition do_cmd :: "pid \<Rightarrow> cmd \<Rightarrow> sys \<Rightarrow> sys option" where
  "do_cmd i m s =
     (case cmd_step i m s of
        (Cont m', s') \<Rightarrow> Some (goto i (Ext m') s')
      | (Stop st, s') \<Rightarrow> Some (exit_proc i st s')
      | (Blocked, _) \<Rightarrow> None)"

section \<open>main\<close>

fun exec_loc :: "cfg \<Rightarrow> pid \<Rightarrow> loc \<Rightarrow> sys \<Rightarrow> sys option" where
  "exec_loc c i L52 s =
     Some (if length (argv c) \<noteq> 2
           then say i 2 ''Usage: processes command'' (exit_proc i (exit_status (-1))) s
           else goto i L58 s)"
| "exec_loc c i L58 s = Some (do_fork c i L58 L62 L114 (say i 2 ''fork error'' (goto i L118)) s)"
| "exec_loc c i L114 s = do_wait i L115 s"
| "exec_loc c i L115 s = Some (say i 1 ''commands completed'' (goto i L118) s)"
| "exec_loc c i L118 s = Some (exit_proc i (exit_status 0) s)"
| "exec_loc c i L62 s = Some (do_pipe c i 0 L62 L67 s)"
| "exec_loc c i L67 s = Some (do_fork c i L67 L72 L105 (perror_exit i ''fork error'') s)"
| "exec_loc c i L105 s = do_close i 0 1 L106 s"
| "exec_loc c i L106 s = do_dup2 i 0 0 0 L107 s"
| "exec_loc c i L107 s = do_close i 0 0 L108 s"
| "exec_loc c i L108 s = Some (do_exec c i L108 [''wc'', ''-l''] ''execlp wc failed'' (\<lambda>_. Wc 0) s)"
| "exec_loc c i L72 s = Some (do_pipe c i 1 L72 L77 s)"
| "exec_loc c i L77 s = Some (do_fork c i L77 L82 L93 (perror_exit i ''fork error'') s)"
| "exec_loc c i L93 s = do_close i 1 1 L94 s"
| "exec_loc c i L94 s = do_dup2 i 1 0 0 L95 s"
| "exec_loc c i L95 s = do_close i 1 0 L96 s"
| "exec_loc c i L96 s = do_close i 0 0 L97 s"
| "exec_loc c i L97 s = do_dup2 i 0 1 1 L98 s"
| "exec_loc c i L98 s = do_close i 0 1 L99 s"
| "exec_loc c i L99 s =
     Some (do_exec c i L99 [''grep'', argv c ! 1] ''execlp grep failed'' (\<lambda>_. Grep (argv c ! 1) False) s)"
| "exec_loc c i L82 s = do_close i 0 0 L83 s"
| "exec_loc c i L83 s = do_close i 0 1 L84 s"
| "exec_loc c i L84 s = do_close i 1 0 L85 s"
| "exec_loc c i L85 s = do_dup2 i 1 1 1 L86 s"
| "exec_loc c i L86 s = do_close i 1 1 L88 s"
| "exec_loc c i L88 s =
     Some (do_exec c i L88 [''ps'', ''aux''] ''execlp ps failed'' (\<lambda>s. Ps (ps_listing (others c) s) 0) s)"
| "exec_loc c i (Ext m) s = do_cmd i m s"

text \<open>Process \<open>i\<close> takes its next step, if it is live and not blocked.\<close>

definition pstep :: "cfg \<Rightarrow> pid \<Rightarrow> sys \<Rightarrow> sys option" where
  "pstep c i s =
     (if i < length (procs s) \<and> pexit (procs s ! i) = None
      then exec_loc c i (code (procs s ! i)) s else None)"

inductive step :: "cfg \<Rightarrow> sys \<Rightarrow> sys \<Rightarrow> bool" for c where
  run_proc: "pstep c i s = Some s' \<Longrightarrow> step c s s'"

inductive reach :: "cfg \<Rightarrow> sys \<Rightarrow> bool" for c where
  start: "reach c (init_sys c)"
| extend: "reach c s \<Longrightarrow> step c s s' \<Longrightarrow> reach c s'"

inductive_cases step_elim: "step c s s'"

text \<open>A run under a given schedule (a list of pids), for concrete executions.\<close>

fun run :: "cfg \<Rightarrow> pid list \<Rightarrow> sys \<Rightarrow> sys option" where
  "run c [] s = Some s"
| "run c (i # is) s = (case pstep c i s of None \<Rightarrow> None | Some s' \<Rightarrow> run c is s')"

lemma run_reach: "run c is s = Some s' \<Longrightarrow> reach c s \<Longrightarrow> reach c s'"
proof (induction "is" arbitrary: s)
  case Nil
  then show ?case by simp
next
  case (Cons i "is")
  then obtain s1 where s1: "pstep c i s = Some s1" and r: "run c is s1 = Some s'"
    by (auto split: option.splits)
  from Cons.prems(2) s1 have "reach c s1" by (blast intro: reach.extend step.run_proc)
  with r show ?case by (rule Cons.IH)
qed

lemma run_append: "run c (xs @ ys) s = Option.bind (run c xs s) (run c ys)"
  by (induction xs arbitrary: s) (auto split: option.splits)

end
