(* ===== verification/Invariant.thy ===== *)
theory Invariant
  imports Processes
begin

text \<open>
  The process-table invariant of \<open>main\<close>. Each process's part of \<open>main\<close> is
  straight-line code, so the state of a live process is determined by its
  program point: \<open>fd_path l\<close> lists the descriptor operations a process has
  executed when it is at \<open>l\<close> (in the order of the source), and \<open>loc_tbl\<close>
  replays them from the supervisor's table. The invariant says that every live
  process has exactly that state, that pid \<open>i\<close> is the process of role \<open>i\<close>
  (0 supervisor, 1 child, 2 grandchild, 3 great-grandchild) and the child of
  pid \<open>i - 1\<close>, that a process before its \<open>fork\<close> is the newest one, and that a
  terminated process holds no descriptor. Every step of every process keeps it,
  so it holds in every state of every interleaving (\<open>reach_inv\<close>).
\<close>

section \<open>The state at each program point\<close>

datatype fdop = OPipe pipe_id nat | OClose nat nat | ODup2 nat nat fd

type_synonym lstate = "fdtable \<times> (nat \<Rightarrow> (fd \<times> fd) option)"

fun apply_fdop :: "lstate \<Rightarrow> fdop \<Rightarrow> lstate" where
  "apply_fdop (t, f) (OPipe p k) = (pipe_tbl p t, f(k := Some (fst (fd_pipe p t))))"
| "apply_fdop (t, f) (OClose k j) =
     (case f k of None \<Rightarrow> (t, f) | Some rw \<Rightarrow> (keep (fd_close (pick j rw) t) t, f))"
| "apply_fdop (t, f) (ODup2 k j n) =
     (case f k of None \<Rightarrow> (t, f) | Some rw \<Rightarrow> (keep (fd_dup2 (pick j rw) n t) t, f))"

abbreviation pipeA :: fdop where "pipeA \<equiv> OPipe (1, 0) 0"
abbreviation pipeB :: fdop where "pipeB \<equiv> OPipe (2, 1) 1"

text \<open>The descriptor operations executed before each point, as in the source.\<close>

fun fd_path :: "loc \<Rightarrow> fdop list" where
  "fd_path L52 = []"
| "fd_path L58 = []"
| "fd_path L114 = []"
| "fd_path L115 = []"
| "fd_path L118 = []"
| "fd_path L62 = []"
| "fd_path L67 = [pipeA]"
| "fd_path L105 = [pipeA]"
| "fd_path L106 = [pipeA, OClose 0 1]"
| "fd_path L107 = [pipeA, OClose 0 1, ODup2 0 0 0]"
| "fd_path L108 = [pipeA, OClose 0 1, ODup2 0 0 0, OClose 0 0]"
| "fd_path L72 = [pipeA]"
| "fd_path L77 = [pipeA, pipeB]"
| "fd_path L93 = [pipeA, pipeB]"
| "fd_path L94 = [pipeA, pipeB, OClose 1 1]"
| "fd_path L95 = [pipeA, pipeB, OClose 1 1, ODup2 1 0 0]"
| "fd_path L96 = [pipeA, pipeB, OClose 1 1, ODup2 1 0 0, OClose 1 0]"
| "fd_path L97 = [pipeA, pipeB, OClose 1 1, ODup2 1 0 0, OClose 1 0, OClose 0 0]"
| "fd_path L98 = [pipeA, pipeB, OClose 1 1, ODup2 1 0 0, OClose 1 0, OClose 0 0, ODup2 0 1 1]"
| "fd_path L99 =
     [pipeA, pipeB, OClose 1 1, ODup2 1 0 0, OClose 1 0, OClose 0 0, ODup2 0 1 1, OClose 0 1]"
| "fd_path L82 = [pipeA, pipeB]"
| "fd_path L83 = [pipeA, pipeB, OClose 0 0]"
| "fd_path L84 = [pipeA, pipeB, OClose 0 0, OClose 0 1]"
| "fd_path L85 = [pipeA, pipeB, OClose 0 0, OClose 0 1, OClose 1 0]"
| "fd_path L86 = [pipeA, pipeB, OClose 0 0, OClose 0 1, OClose 1 0, ODup2 1 1 1]"
| "fd_path L88 = [pipeA, pipeB, OClose 0 0, OClose 0 1, OClose 1 0, ODup2 1 1 1, OClose 1 1]"
| "fd_path (Ext (Wc _)) = [pipeA, OClose 0 1, ODup2 0 0 0, OClose 0 0]"
| "fd_path (Ext (Grep _ _)) =
     [pipeA, pipeB, OClose 1 1, ODup2 1 0 0, OClose 1 0, OClose 0 0, ODup2 0 1 1, OClose 0 1]"
| "fd_path (Ext (Ps _ _)) = [pipeA, pipeB, OClose 0 0, OClose 0 1, OClose 1 0, ODup2 1 1 1, OClose 1 1]"

definition loc_tbl :: "cfg \<Rightarrow> loc \<Rightarrow> lstate" where
  "loc_tbl c l = foldl apply_fdop (init_fdt c, \<lambda>_. None) (fd_path l)"

text \<open>Which process runs the code at a point.\<close>

fun role :: "loc \<Rightarrow> pid" where
  "role L52 = 0" | "role L58 = 0" | "role L114 = 0" | "role L115 = 0" | "role L118 = 0"
| "role L62 = 1" | "role L67 = 1" | "role L105 = 1" | "role L106 = 1" | "role L107 = 1"
| "role L108 = 1" | "role (Ext (Wc _)) = 1"
| "role L72 = 2" | "role L77 = 2" | "role L93 = 2" | "role L94 = 2" | "role L95 = 2"
| "role L96 = 2" | "role L97 = 2" | "role L98 = 2" | "role L99 = 2" | "role (Ext (Grep _ _)) = 2"
| "role L82 = 3" | "role L83 = 3" | "role L84 = 3" | "role L85 = 3" | "role L86 = 3"
| "role L88 = 3" | "role (Ext (Ps _ _)) = 3"

fun exp_cmdline :: "cfg \<Rightarrow> loc \<Rightarrow> string list" where
  "exp_cmdline c (Ext (Wc _)) = [''wc'', ''-l'']"
| "exp_cmdline c (Ext (Grep _ _)) = [''grep'', argv c ! 1]"
| "exp_cmdline c (Ext (Ps _ _)) = [''ps'', ''aux'']"
| "exp_cmdline c _ = argv c"

fun code_ok :: "cfg \<Rightarrow> loc \<Rightarrow> bool" where
  "code_ok c (Ext (Grep t _)) = (t = argv c ! 1)"
| "code_ok c _ = True"

text \<open>The points before the process's own \<open>fork\<close>.\<close>

fun prefork :: "loc \<Rightarrow> bool" where
  "prefork L52 = True" | "prefork L58 = True" | "prefork L62 = True" | "prefork L67 = True"
| "prefork L72 = True" | "prefork L77 = True" | "prefork _ = False"

section \<open>The invariant\<close>

definition at_loc :: "cfg \<Rightarrow> loc \<Rightarrow> loc proc \<Rightarrow> bool" where
  "at_loc c l p \<longleftrightarrow> (fdt p, fds p) = loc_tbl c l \<and> cmdline p = exp_cmdline c l \<and> code_ok c l"

definition proc_ok :: "cfg \<Rightarrow> nat \<Rightarrow> pid \<Rightarrow> loc proc \<Rightarrow> bool" where
  "proc_ok c n i p \<longleftrightarrow>
     ppid p = (if i = 0 then None else Some (i - 1)) \<and>
     (pexit p = None \<longrightarrow> role (code p) = i \<and> at_loc c (code p) p \<and> (prefork (code p) \<longrightarrow> n = Suc i)) \<and>
     (pexit p \<noteq> None \<longrightarrow> fdt p = [])"

definition proc_inv :: "cfg \<Rightarrow> loc proc list \<Rightarrow> bool" where
  "proc_inv c ps \<longleftrightarrow> ps \<noteq> [] \<and> length ps \<le> 4 \<and> (\<forall>i < length ps. proc_ok c (length ps) i (ps ! i))"

lemma inv_init: "proc_inv c (procs (init_sys c))"
  by (simp add: proc_inv_def proc_ok_def at_loc_def loc_tbl_def init_sys_def)

section \<open>Updates that keep the invariant\<close>

lemma inv_upd:
  assumes "proc_inv c ps" "i < length ps" "proc_ok c (length ps) i p'"
  shows "proc_inv c (ps[i := p'])"
  using assms by (auto simp: proc_inv_def nth_list_update)

lemma proc_ok_exit:
  "proc_ok c n i p \<Longrightarrow> proc_ok c n i (p\<lparr>pexit := Some st, fdt := []\<rparr>)"
  by (simp add: proc_ok_def)

lemma inv_exit:
  assumes "proc_inv c ps" "i < length ps"
  shows "proc_inv c (ps[i := (ps ! i)\<lparr>pexit := Some st, fdt := []\<rparr>])"
proof -
  have "proc_ok c (length ps) i (ps ! i)" using assms by (simp add: proc_inv_def)
  then have "proc_ok c (length ps) i ((ps ! i)\<lparr>pexit := Some st, fdt := []\<rparr>)"
    by (rule proc_ok_exit)
  with assms show ?thesis by (rule inv_upd)
qed

text \<open>A live process moves to a point of its own role with the matching state.\<close>

lemma proc_ok_move:
  assumes "proc_ok c n i p" "pexit p = None"
    and "role l = role (code p)" "at_loc c l p'" "prefork l \<longrightarrow> prefork (code p)"
    and "ppid p' = ppid p" "pexit p' = None" "code p' = l"
  shows "proc_ok c n i p'"
  using assms by (auto simp: proc_ok_def)

lemma inv_move:
  assumes "proc_inv c ps" "i < length ps" "pexit (ps ! i) = None"
    and "role l = role (code (ps ! i))" "at_loc c l p'" "prefork l \<longrightarrow> prefork (code (ps ! i))"
    and "ppid p' = ppid (ps ! i)" "pexit p' = None" "code p' = l"
  shows "proc_inv c (ps[i := p'])"
proof -
  have "proc_ok c (length ps) i (ps ! i)" using assms(1,2) by (simp add: proc_inv_def)
  then have "proc_ok c (length ps) i p'" using assms(3-) by (rule proc_ok_move)
  with assms(1,2) show ?thesis by (rule inv_upd)
qed

text \<open>
  A \<open>fork\<close> by the newest process \<open>i\<close>: the parent moves to \<open>lp\<close> and the
  child, pid \<open>i + 1\<close>, starts at \<open>lc\<close>, both with the parent's state.
\<close>

lemma inv_fork:
  assumes inv: "proc_inv c ps" and i: "i < length ps" and live: "pexit (ps ! i) = None"
    and pre: "prefork (code (ps ! i))"
    and lp: "role lp = i" "fd_path lp = fd_path (code (ps ! i))" "exp_cmdline c lp = exp_cmdline c (code (ps ! i))"
      "\<not> prefork lp" "code_ok c lp"
    and lc: "role lc = Suc i" "fd_path lc = fd_path (code (ps ! i))" "exp_cmdline c lc = exp_cmdline c (code (ps ! i))"
      "code_ok c lc" "length ps < 4"
  shows "proc_inv c (ps[i := (ps ! i)\<lparr>code := lp\<rparr>] @ [(ps ! i)\<lparr>code := lc, ppid := Some i\<rparr>])"
proof -
  let ?p = "ps ! i"
  have ok: "proc_ok c (length ps) i ?p" using inv i by (simp add: proc_inv_def)
  then have n: "length ps = Suc i" and loc: "at_loc c (code ?p) ?p"
    using live pre by (auto simp: proc_ok_def)
  have others: "proc_ok c (Suc (length ps)) j (ps ! j)" if "j < i" for j
  proof -
    have "proc_ok c (length ps) j (ps ! j)" using inv that n by (simp add: proc_inv_def)
    moreover have "\<not> (pexit (ps ! j) = None \<and> prefork (code (ps ! j)))"
      using \<open>proc_ok c (length ps) j (ps ! j)\<close> that n by (auto simp: proc_ok_def)
    ultimately show ?thesis by (auto simp: proc_ok_def)
  qed
  have parent: "proc_ok c (Suc (length ps)) i (?p\<lparr>code := lp\<rparr>)"
    using ok live lp loc by (auto simp: proc_ok_def at_loc_def loc_tbl_def)
  have child: "proc_ok c (Suc (length ps)) (Suc i) (?p\<lparr>code := lc, ppid := Some i\<rparr>)"
    using live lc loc n by (auto simp: proc_ok_def at_loc_def loc_tbl_def)
  show ?thesis
    unfolding proc_inv_def
  proof (intro conjI allI impI)
    fix j assume j: "j < length (ps[i := ?p\<lparr>code := lp\<rparr>] @ [?p\<lparr>code := lc, ppid := Some i\<rparr>])"
    then have "j < Suc (Suc i)" using n by simp
    then consider "j < i" | "j = i" | "j = Suc i" by linarith
    then show "proc_ok c (length (ps[i := ?p\<lparr>code := lp\<rparr>] @ [?p\<lparr>code := lc, ppid := Some i\<rparr>])) j
        ((ps[i := ?p\<lparr>code := lp\<rparr>] @ [?p\<lparr>code := lc, ppid := Some i\<rparr>]) ! j)"
    proof cases
      case 1
      then show ?thesis using others [OF 1] n by (simp add: nth_append nth_list_update)
    next
      case 2
      then show ?thesis using parent n by (simp add: nth_append)
    next
      case 3
      then show ?thesis using child n by (simp add: nth_append)
    qed
  qed (use lc in auto)
qed

section \<open>Each kind of statement keeps the invariant\<close>

lemma inv_proc:
  "proc_inv c ps \<Longrightarrow> i < length ps \<Longrightarrow> proc_ok c (length ps) i (ps ! i)"
  by (simp add: proc_inv_def)

lemma loc_tbl_snoc:
  "fd_path l = fd_path l0 @ [op] \<Longrightarrow> loc_tbl c l = apply_fdop (loc_tbl c l0) op"
  by (simp add: loc_tbl_def)

lemma loc_tbl_same:
  "fd_path l = fd_path l0 \<Longrightarrow> loc_tbl c l = loc_tbl c l0"
  by (simp add: loc_tbl_def)

text \<open>The facts about a live process at point \<open>l0\<close> that each lemma below uses.\<close>

lemma live_at:
  assumes "proc_inv c (procs s)" "i < length (procs s)" "pexit (procs s ! i) = None"
  shows "role (code (procs s ! i)) = i"
    and "(fdt (procs s ! i), fds (procs s ! i)) = loc_tbl c (code (procs s ! i))"
    and "cmdline (procs s ! i) = exp_cmdline c (code (procs s ! i))"
  using inv_proc [OF assms(1,2)] assms(3) by (auto simp: proc_ok_def at_loc_def)

lemma inv_exit_proc:
  "proc_inv c (procs s) \<Longrightarrow> i < length (procs s) \<Longrightarrow> proc_inv c (procs (exit_proc i st s))"
  by (simp add: procs_exit_proc inv_exit)

lemma inv_say:
  assumes "procs_only k" "proc_inv c (procs (k s))" "proc_inv c (procs s)" "i < length (procs s)"
  shows "proc_inv c (procs (say i n msg k s))"
  using procs_say [OF assms(1), of i n msg s] assms(2) inv_exit_proc [OF assms(3,4)] by auto

lemma inv_perror:
  "proc_inv c (procs s) \<Longrightarrow> i < length (procs s) \<Longrightarrow> proc_inv c (procs (perror_exit i msg s))"
  unfolding perror_exit_def by (rule inv_say [OF procs_only_exit inv_exit_proc])

lemma inv_goto:
  assumes "proc_inv c (procs s)" "i < length (procs s)" "pexit (procs s ! i) = None"
    and "fd_path l = fd_path (code (procs s ! i))" "role l = role (code (procs s ! i))"
    and "exp_cmdline c l = exp_cmdline c (code (procs s ! i))" "code_ok c l"
    and "prefork l \<longrightarrow> prefork (code (procs s ! i))"
  shows "proc_inv c (procs (goto i l s))"
  unfolding procs_goto
  by (rule inv_move) (use assms live_at [OF assms(1-3)] loc_tbl_same [OF assms(4)] in
      \<open>simp_all add: at_loc_def\<close>)

lemma inv_close:
  assumes "proc_inv c (procs s)" "i < length (procs s)" "pexit (procs s ! i) = None"
    and "do_close i k j l s = Some s'"
    and "fd_path l = fd_path (code (procs s ! i)) @ [OClose k j]" "role l = role (code (procs s ! i))"
    and "exp_cmdline c l = exp_cmdline c (code (procs s ! i))" "code_ok c l" "\<not> prefork l"
  shows "proc_inv c (procs s')"
proof -
  let ?p = "procs s ! i"
  obtain rw where rw: "fds ?p k = Some rw"
    using assms(4) by (auto simp: do_close_def fd_of_def split: option.splits)
  have s': "procs s' = (procs s)[i := ?p\<lparr>fdt := keep (fd_close (pick j rw) (fdt ?p)) (fdt ?p), code := l\<rparr>]"
    using assms(4) rw by (auto simp: do_close_def fd_of_def procs_upd_proc)
  have "loc_tbl c l = apply_fdop (fdt ?p, fds ?p) (OClose k j)"
    using loc_tbl_snoc [OF assms(5)] live_at(2) [OF assms(1-3)] by simp
  then have "at_loc c l (?p\<lparr>fdt := keep (fd_close (pick j rw) (fdt ?p)) (fdt ?p), code := l\<rparr>)"
    using rw assms(7,8) live_at(3) [OF assms(1-3)] by (simp add: at_loc_def)
  then show ?thesis
    unfolding s' by (rule inv_move [OF assms(1-3) assms(6)]) (simp_all add: assms(3,9))
qed

lemma inv_dup2:
  assumes "proc_inv c (procs s)" "i < length (procs s)" "pexit (procs s ! i) = None"
    and "do_dup2 i k j n l s = Some s'"
    and "fd_path l = fd_path (code (procs s ! i)) @ [ODup2 k j n]" "role l = role (code (procs s ! i))"
    and "exp_cmdline c l = exp_cmdline c (code (procs s ! i))" "code_ok c l" "\<not> prefork l"
  shows "proc_inv c (procs s')"
proof -
  let ?p = "procs s ! i"
  obtain rw where rw: "fds ?p k = Some rw"
    using assms(4) by (auto simp: do_dup2_def fd_of_def split: option.splits)
  have s': "procs s' = (procs s)[i := ?p\<lparr>fdt := keep (fd_dup2 (pick j rw) n (fdt ?p)) (fdt ?p), code := l\<rparr>]"
    using assms(4) rw by (auto simp: do_dup2_def fd_of_def procs_upd_proc)
  have "loc_tbl c l = apply_fdop (fdt ?p, fds ?p) (ODup2 k j n)"
    using loc_tbl_snoc [OF assms(5)] live_at(2) [OF assms(1-3)] by simp
  then have "at_loc c l (?p\<lparr>fdt := keep (fd_dup2 (pick j rw) n (fdt ?p)) (fdt ?p), code := l\<rparr>)"
    using rw assms(7,8) live_at(3) [OF assms(1-3)] by (simp add: at_loc_def)
  then show ?thesis
    unfolding s' by (rule inv_move [OF assms(1-3) assms(6)]) (simp_all add: assms(3,9))
qed

lemma inv_pipe:
  assumes "proc_inv c (procs s)" "i < length (procs s)" "pexit (procs s ! i) = None"
    and "fd_path l = fd_path (code (procs s ! i)) @ [OPipe (i, k) k]" "role l = role (code (procs s ! i))"
    and "exp_cmdline c l = exp_cmdline c (code (procs s ! i))" "code_ok c l"
    and "prefork l \<longrightarrow> prefork (code (procs s ! i))"
  shows "proc_inv c (procs (do_pipe c i k here l s))"
proof (cases "fails c here")
  case True
  then show ?thesis using assms(1,2) by (simp add: do_pipe_def inv_perror)
next
  case False
  let ?p = "procs s ! i"
  let ?p' = "?p\<lparr>fdt := pipe_tbl (i, k) (fdt ?p), fds := (fds ?p)(k := Some (fst (fd_pipe (i, k) (fdt ?p)))), code := l\<rparr>"
  have "loc_tbl c l = apply_fdop (fdt ?p, fds ?p) (OPipe (i, k) k)"
    using loc_tbl_snoc [OF assms(4)] live_at(2) [OF assms(1-3)] by simp
  then have "at_loc c l ?p'"
    using assms(6,7) live_at(3) [OF assms(1-3)] by (simp add: at_loc_def)
  then have "proc_inv c ((procs s)[i := ?p'])"
    by (rule inv_move [OF assms(1-3) assms(5)]) (simp_all add: assms(3,8))
  with False show ?thesis by (simp add: do_pipe_def procs_upd_proc)
qed

lemma inv_exec:
  assumes "proc_inv c (procs s)" "i < length (procs s)" "pexit (procs s ! i) = None"
    and "\<And>t. fd_path (Ext (mk t)) = fd_path (code (procs s ! i))"
    and "\<And>t. role (Ext (mk t)) = role (code (procs s ! i))"
    and "\<And>t. exp_cmdline c (Ext (mk t)) = args" "\<And>t. code_ok c (Ext (mk t))"
  shows "proc_inv c (procs (do_exec c i here args msg mk s))"
proof (cases "fails c here")
  case True
  then show ?thesis using assms(1,2) by (simp add: do_exec_def inv_perror)
next
  case False
  let ?p = "procs s ! i"
  let ?s1 = "upd_proc i (\<lambda>p. p\<lparr>cmdline := args\<rparr>) s"
  let ?p' = "?p\<lparr>cmdline := args, code := Ext (mk ?s1)\<rparr>"
  have "at_loc c (Ext (mk ?s1)) ?p'"
    using assms(4,6,7) live_at(2) [OF assms(1-3)] loc_tbl_same [OF assms(4)]
    by (simp add: at_loc_def)
  then have "proc_inv c ((procs s)[i := ?p'])"
    by (rule inv_move [OF assms(1-3) assms(5)]) (simp_all add: assms(3))
  with False assms(2) show ?thesis by (simp add: do_exec_def procs_upd_proc procs_goto Let_def)
qed

lemma inv_say_goto:
  assumes "proc_inv c (procs s)" "i < length (procs s)" "pexit (procs s ! i) = None"
    and "fd_path l = fd_path (code (procs s ! i))" "role l = role (code (procs s ! i))"
    and "exp_cmdline c l = exp_cmdline c (code (procs s ! i))" "code_ok c l"
    and "prefork l \<longrightarrow> prefork (code (procs s ! i))"
  shows "proc_inv c (procs (say i n msg (goto i l) s))"
  using procs_say [OF procs_only_goto [of i l], of i n msg s] inv_goto [OF assms]
    inv_exit_proc [OF assms(1,2)] by auto

lemma inv_say_exit:
  "proc_inv c (procs s) \<Longrightarrow> i < length (procs s) \<Longrightarrow> proc_inv c (procs (say i n msg (exit_proc i st) s))"
  by (rule inv_say [OF procs_only_exit inv_exit_proc])

lemma inv_do_fork:
  assumes "proc_inv c (procs s)" "i < length (procs s)" "pexit (procs s ! i) = None"
    and "prefork (code (procs s ! i))" "i < 3"
    and "role lp = i" "fd_path lp = fd_path (code (procs s ! i))"
      "exp_cmdline c lp = exp_cmdline c (code (procs s ! i))" "\<not> prefork lp" "code_ok c lp"
    and "role lc = Suc i" "fd_path lc = fd_path (code (procs s ! i))"
      "exp_cmdline c lc = exp_cmdline c (code (procs s ! i))" "code_ok c lc"
    and "proc_inv c (procs (on_fail s))"
  shows "proc_inv c (procs (do_fork c i here lc lp on_fail s))"
proof (cases "fails c here")
  case True
  then show ?thesis using assms(15) by (simp add: do_fork_def)
next
  case False
  have "length (procs s) = Suc i"
    using inv_proc [OF assms(1,2)] assms(3,4) by (simp add: proc_ok_def)
  then have "length (procs s) < 4" using assms(5) by simp
  then have "proc_inv c ((procs s)[i := (procs s ! i)\<lparr>code := lp\<rparr>] @ [(procs s ! i)\<lparr>code := lc, ppid := Some i\<rparr>])"
    by (rule inv_fork [OF assms(1-4,6-14)])
  with False assms(2) show ?thesis
    by (simp add: do_fork_def procs_goto procs_fork_proc list_update_append nth_append)
qed

lemma inv_wait:
  assumes "proc_inv c (procs s)" "i < length (procs s)" "pexit (procs s ! i) = None"
    and "do_wait i l s = Some s'"
    and "fd_path l = fd_path (code (procs s ! i))" "role l = role (code (procs s ! i))"
    and "exp_cmdline c l = exp_cmdline c (code (procs s ! i))" "code_ok c l"
    and "prefork l \<longrightarrow> prefork (code (procs s ! i))"
  shows "proc_inv c (procs s')"
proof -
  have "s' = goto i l s" using assms(4) by (simp add: do_wait_def split: if_splits)
  then show ?thesis using inv_goto [OF assms(1-3) assms(5-9)] by simp
qed

lemma inv_cmd:
  assumes "proc_inv c (procs s)" "i < length (procs s)" "pexit (procs s ! i) = None"
    and "code (procs s ! i) = Ext m" "do_cmd i m s = Some s'"
  shows "proc_inv c (procs s')"
proof (cases "cmd_step i m s")
  case (Pair r s1)
  have s1: "procs s1 = procs s" using cmd_step_procs [of i m s] Pair by simp
  show ?thesis
  proof (cases r)
    case (Cont m')
    then have s': "s' = goto i (Ext m') s1" using assms(5) Pair by (simp add: do_cmd_def)
    have "fst (cmd_step i m s) = Cont m'" using Pair Cont by simp
    then have kind: "fd_path (Ext m') = fd_path (Ext m) \<and> role (Ext m') = role (Ext m)
        \<and> exp_cmdline c (Ext m') = exp_cmdline c (Ext m) \<and> (code_ok c (Ext m) \<longrightarrow> code_ok c (Ext m'))"
      by (auto dest!: cmd_step_Cont)
    have "code_ok c (Ext m)"
      using inv_proc [OF assms(1,2)] assms(3,4) by (simp add: proc_ok_def at_loc_def)
    then have "proc_inv c (procs (goto i (Ext m') s))"
      using kind assms(4) by (intro inv_goto [OF assms(1-3)]) simp_all
    then show ?thesis using s' s1 by (simp add: procs_goto)
  next
    case (Stop st)
    then have "s' = exit_proc i st s1" using assms(5) Pair by (simp add: do_cmd_def)
    then show ?thesis using inv_exit_proc [OF assms(1,2), of st] s1 by (simp add: procs_exit_proc)
  next
    case Blocked
    then show ?thesis using assms(5) Pair by (simp add: do_cmd_def)
  qed
qed

section \<open>Every step keeps the invariant\<close>

theorem inv_pstep:
  assumes inv: "proc_inv c (procs s)" and st: "pstep c i s = Some s'"
  shows "proc_inv c (procs s')"
proof -
  let ?p = "procs s ! i"
  from st have i: "i < length (procs s)" and live: "pexit ?p = None"
    and ex: "exec_loc c i (code ?p) s = Some s'"
    by (auto simp: pstep_def split: if_splits)
  have r: "role (code ?p) = i" by (rule live_at(1) [OF inv i live])
  note I = inv i live
  show ?thesis
  proof (cases "code ?p")
    case L52
    then show ?thesis using ex inv_say_exit [OF inv i] inv_goto [OF I, of L58]
      by (auto)
  next
    case L58
    have "proc_inv c (procs (say i 2 ''fork error'' (goto i L118) s))"
      using L58 by (intro inv_say_goto [OF I]) simp_all
    moreover have "i = 0" using r L58 by simp
    ultimately have "proc_inv c (procs (do_fork c i L58 L62 L114 (say i 2 ''fork error'' (goto i L118)) s))"
      using L58 by (intro inv_do_fork [OF I]) simp_all
    then show ?thesis using ex L58 by simp
  next
    case L114
    then show ?thesis using ex by (auto intro: inv_wait [OF I])
  next
    case L115
    then show ?thesis using ex by (auto intro!: inv_say_goto [OF I])
  next
    case L118
    then show ?thesis using ex inv_exit_proc [OF inv i] by auto
  next
    case L62
    then have "i = role L62" using r by simp
    then have "proc_inv c (procs (do_pipe c i 0 L62 L67 s))"
      using L62 by (intro inv_pipe [OF I]) simp_all
    then show ?thesis using ex L62 by simp
  next
    case L67
    then have "i = role L67" using r by simp
    then have "proc_inv c (procs (do_fork c i L67 L72 L105 (perror_exit i ''fork error'') s))"
      using L67 inv_perror [OF inv i] by (intro inv_do_fork [OF I]) simp_all
    then show ?thesis using ex L67 by simp
  next
    case L105
    then show ?thesis using ex by (auto intro: inv_close [OF I])
  next
    case L106
    then show ?thesis using ex by (auto intro: inv_dup2 [OF I])
  next
    case L107
    then show ?thesis using ex by (auto intro: inv_close [OF I])
  next
    case L108
    then show ?thesis using ex by (auto intro!: inv_exec [OF I])
  next
    case L72
    then have "i = role L72" using r by simp
    then have "proc_inv c (procs (do_pipe c i 1 L72 L77 s))"
      using L72 by (intro inv_pipe [OF I]) simp_all
    then show ?thesis using ex L72 by simp
  next
    case L77
    then have "i = role L77" using r by simp
    then have "proc_inv c (procs (do_fork c i L77 L82 L93 (perror_exit i ''fork error'') s))"
      using L77 inv_perror [OF inv i] by (intro inv_do_fork [OF I]) simp_all
    then show ?thesis using ex L77 by simp
  next
    case L93
    then show ?thesis using ex by (auto intro: inv_close [OF I])
  next
    case L94
    then show ?thesis using ex by (auto intro: inv_dup2 [OF I])
  next
    case L95
    then show ?thesis using ex by (auto intro: inv_close [OF I])
  next
    case L96
    then show ?thesis using ex by (auto intro: inv_close [OF I])
  next
    case L97
    then show ?thesis using ex by (auto intro: inv_dup2 [OF I])
  next
    case L98
    then show ?thesis using ex by (auto intro: inv_close [OF I])
  next
    case L99
    then show ?thesis using ex by (auto intro!: inv_exec [OF I])
  next
    case L82
    then show ?thesis using ex by (auto intro: inv_close [OF I])
  next
    case L83
    then show ?thesis using ex by (auto intro: inv_close [OF I])
  next
    case L84
    then show ?thesis using ex by (auto intro: inv_close [OF I])
  next
    case L85
    then show ?thesis using ex by (auto intro: inv_dup2 [OF I])
  next
    case L86
    then show ?thesis using ex by (auto intro: inv_close [OF I])
  next
    case L88
    then show ?thesis using ex by (auto intro!: inv_exec [OF I])
  next
    case (Ext m)
    then show ?thesis using ex by (auto intro: inv_cmd [OF I])
  qed
qed

theorem reach_inv: "reach c s \<Longrightarrow> proc_inv c (procs s)"
proof (induction rule: reach.induct)
  case start
  then show ?case by (rule inv_init)
next
  case (extend s s')
  then show ?case by (auto elim!: step_elim intro: inv_pstep)
qed

text \<open>The supervisor's only child is pid 1.\<close>

lemma children_sup:
  assumes "reach c s" "1 < length (procs s)"
  shows "children s 0 = [1]"
proof -
  have pp: "ppid (procs s ! j) = (if j = 0 then None else Some (j - 1))" if "j < length (procs s)" for j
    using reach_inv [OF assms(1)] that by (simp add: proc_inv_def proc_ok_def)
  have "children s 0 = filter (\<lambda>j. j = 1) [0..<length (procs s)]"
    unfolding children_def by (rule filter_cong) (auto simp: pp)
  also have "[0..<length (procs s)] = 0 # 1 # [2..<length (procs s)]"
  proof -
    have a: "[0..<length (procs s)] = 0 # [Suc 0..<length (procs s)]"
      by (rule upt_conv_Cons) (use assms(2) in arith)
    have b: "[Suc 0..<length (procs s)] = Suc 0 # [Suc (Suc 0)..<length (procs s)]"
      by (rule upt_conv_Cons) (use assms(2) in arith)
    show ?thesis using a b by (simp add: numeral_2_eq_2)
  qed
  also have "filter (\<lambda>j. j = 1) (0 # 1 # [2..<length (procs s)]) = [1]"
    by (simp add: filter_empty_conv)
  finally show ?thesis .
qed

section \<open>The process tree\<close>

text \<open>
  C12. In every reachable state the processes form the chain that \<open>main\<close>
  builds with its three \<open>fork\<close> calls: there are between one and four of
  them, pid \<open>i > 0\<close> is the child of pid \<open>i - 1\<close> and the supervisor has no
  parent, every live process runs the code of its own role (supervisor, the
  \<open>wc\<close> child, the \<open>grep\<close> grandchild, the \<open>ps\<close> great-grandchild), and a
  process that has exited holds no descriptor (the kernel closed them all).
\<close>

theorem process_tree:
  assumes "reach c s"
  shows "procs s \<noteq> [] \<and> length (procs s) \<le> 4 \<and>
    (\<forall>i < length (procs s).
       ppid (procs s ! i) = (if i = 0 then None else Some (i - 1)) \<and>
       (pexit (procs s ! i) = None \<longrightarrow> role (code (procs s ! i)) = i) \<and>
       (pexit (procs s ! i) \<noteq> None \<longrightarrow> fdt (procs s ! i) = []))"
  using reach_inv [OF assms] by (simp add: proc_inv_def proc_ok_def)

end
