(* ===== verification/Wiring.thy ===== *)
theory Wiring
  imports Invariant
begin

text \<open>
  The pipeline topology that \<open>main\<close> builds. When the descriptors 0 and 1 of
  the supervisor are open, each stage runs its command with exactly the inherited
  table, its standard input and output replaced by the right pipe ends, and no
  other pipe descriptor: \<open>wc\<close> reads pipe \<open>(1, 0)\<close> (created by the child in
  \<open>fds[0]\<close>), \<open>grep\<close> reads pipe \<open>(2, 1)\<close> (created by the grandchild in
  \<open>fds[1]\<close>) and writes pipe \<open>(1, 0)\<close>, and \<open>ps\<close> writes pipe \<open>(2, 1)\<close>.
  The descriptors that \<open>pipe\<close> returns are named \<open>rA\<close>, \<open>wA\<close>, \<open>rB\<close>,
  \<open>wB\<close> below; the lemmas about them are what the source's \<open>dup2\<close> and
  \<open>close\<close> sequence relies on: all four are distinct and none is 0 or 1.
  When descriptor 0 is closed at start, the first pipe's read end is
  descriptor 0 itself, and the sequence closes it: \<open>wc\<close> runs without input.
\<close>

section \<open>The pipe descriptors\<close>

definition tA :: "cfg \<Rightarrow> fdtable" where
  "tA c = pipe_tbl (1, 0) (init_fdt c)"

definition rA :: "cfg \<Rightarrow> fd" where "rA c = pipe_rd (1, 0) (init_fdt c)"
definition wA :: "cfg \<Rightarrow> fd" where "wA c = pipe_wr (1, 0) (init_fdt c)"
definition rB :: "cfg \<Rightarrow> fd" where "rB c = pipe_rd (2, 1) (tA c)"
definition wB :: "cfg \<Rightarrow> fd" where "wB c = pipe_wr (2, 1) (tA c)"

definition std_open :: "cfg \<Rightarrow> bool" where
  "std_open c \<longleftrightarrow> slot_get (init_fdt c) 0 \<noteq> None \<and> slot_get (init_fdt c) 1 \<noteq> None"

lemma fresh_A:
  "slot_get (init_fdt c) (rA c) = None" "slot_get (init_fdt c) (wA c) = None" "rA c \<noteq> wA c"
  by (simp_all add: rA_def wA_def slot_simps)

lemma fresh_B:
  "slot_get (init_fdt c) (rB c) = None" "slot_get (init_fdt c) (wB c) = None" "rB c \<noteq> wB c"
  "rB c \<noteq> rA c" "rB c \<noteq> wA c" "wB c \<noteq> rA c" "wB c \<noteq> wA c"
proof -
  have r: "slot_get (tA c) (rB c) = None" and w: "slot_get (tA c) (wB c) = None"
    by (simp_all add: rB_def wB_def slot_simps)
  have m: "slot_get (tA c) = (slot_get (init_fdt c))(rA c \<mapsto> PipeR (1, 0), wA c \<mapsto> PipeW (1, 0))"
    by (simp add: tA_def rA_def wA_def slot_simps)
  show "slot_get (init_fdt c) (rB c) = None" "slot_get (init_fdt c) (wB c) = None"
    "rB c \<noteq> rA c" "rB c \<noteq> wA c" "wB c \<noteq> rA c" "wB c \<noteq> wA c"
    using r w unfolding m by (auto split: if_splits)
  show "rB c \<noteq> wB c" by (simp add: rB_def wB_def slot_simps)
qed

lemma above_std:
  assumes "std_open c"
  shows "rA c \<noteq> 0" "wA c \<noteq> 0" "rB c \<noteq> 0" "wB c \<noteq> 0"
    "rA c \<noteq> 1" "wA c \<noteq> 1" "rB c \<noteq> 1" "wB c \<noteq> 1"
  using assms fresh_A(1,2) fresh_B(1,2) unfolding std_open_def by metis+

lemmas pipe_fds = fresh_A fresh_B

text \<open>The tables the replay reaches, in terms of the four descriptors.\<close>

lemma pick_simps [simp]: "pick 0 rw = fst rw" "pick (Suc 0) rw = snd rw"
  by (simp_all add: pick_def)

lemma fold_pipe_fds [simp]:
  "fst (fd_pipe (Suc 0, 0) (init_fdt c)) = (rA c, wA c)"
  "pipe_tbl (Suc 0, 0) (init_fdt c) = tA c"
  "fst (fd_pipe (2, Suc 0) (tA c)) = (rB c, wB c)"
  by (simp_all add: rA_def wA_def rB_def wB_def tA_def)

lemma slot_tA: "slot_get (tA c) = (slot_get (init_fdt c))(rA c \<mapsto> PipeR (1, 0), wA c \<mapsto> PipeW (1, 0))"
  by (simp add: tA_def rA_def wA_def slot_simps del: fold_pipe_fds)

lemma slot_tB:
  "slot_get (pipe_tbl (2, 1) (tA c)) = (slot_get (tA c))(rB c \<mapsto> PipeR (2, 1), wB c \<mapsto> PipeW (2, 1))"
  by (simp add: rB_def wB_def slot_simps del: fold_pipe_fds)

section \<open>The table of each stage\<close>

lemma wc_map:
  assumes "std_open c"
  shows "slot_get (fst (loc_tbl c (Ext (Wc n)))) = (slot_get (init_fdt c))(0 \<mapsto> PipeR (1, 0))"
  using pipe_fds [of c] above_std [OF assms]
  by (auto simp: loc_tbl_def slot_simps slot_tA fun_eq_iff)

lemma grep_map:
  assumes "std_open c"
  shows "slot_get (fst (loc_tbl c (Ext (Grep t b))))
           = (slot_get (init_fdt c))(0 \<mapsto> PipeR (2, 1), 1 \<mapsto> PipeW (1, 0))"
  using pipe_fds [of c] above_std [OF assms]
  by (auto simp: loc_tbl_def slot_simps slot_tA slot_tB fun_eq_iff)

lemma ps_map:
  assumes "std_open c"
  shows "slot_get (fst (loc_tbl c (Ext (Ps ls k)))) = (slot_get (init_fdt c))(1 \<mapsto> PipeW (2, 1))"
  using pipe_fds [of c] above_std [OF assms]
  by (auto simp: loc_tbl_def slot_simps slot_tA slot_tB fun_eq_iff)

text \<open>A live process's table is the one its program point determines.\<close>

lemma live_tbl:
  assumes "reach c s" "i < length (procs s)" "pexit (procs s ! i) = None"
  shows "fdt (procs s ! i) = fst (loc_tbl c (code (procs s ! i)))"
    and "role (code (procs s ! i)) = i"
  using live_at(2) [OF reach_inv [OF assms(1)] assms(2,3)] live_at(1) [OF reach_inv [OF assms(1)] assms(2,3)]
  by (metis fst_conv)+

section \<open>The pipeline as built\<close>

text \<open>
  C1. The counting stage: a live process running \<open>wc -l\<close> is the child (pid 1),
  and its descriptor table is the supervisor's with standard input replaced by
  the read end of the pipe the child created in \<open>fds[0]\<close>; it holds no other
  pipe end (src/Program1/Cpp/processes.cpp, lines 62 and 105 to 108).
\<close>

theorem wc_stage_wiring:
  assumes "reach c s" "std_open c" "i < length (procs s)" "pexit (procs s ! i) = None"
    and "code (procs s ! i) = Ext (Wc n)"
  shows "i = 1 \<and> slot_get (fdt (procs s ! i)) = (slot_get (init_fdt c))(0 \<mapsto> PipeR (1, 0))"
  using live_tbl [OF assms(1,3,4)] assms(5) wc_map [OF assms(2)] by simp

text \<open>
  C2. The filtering stage: a live process running \<open>grep\<close> is the grandchild
  (pid 2); its standard input is the read end of the pipe it created in
  \<open>fds[1]\<close>, its standard output the write end of the child's pipe, and every
  other descriptor is as the supervisor inherited it (lines 72 and 93 to 99).
\<close>

theorem grep_stage_wiring:
  assumes "reach c s" "std_open c" "i < length (procs s)" "pexit (procs s ! i) = None"
    and "code (procs s ! i) = Ext (Grep t b)"
  shows "i = 2 \<and> slot_get (fdt (procs s ! i)) = (slot_get (init_fdt c))(0 \<mapsto> PipeR (2, 1), 1 \<mapsto> PipeW (1, 0))"
  using live_tbl [OF assms(1,3,4)] assms(5) grep_map [OF assms(2)] by simp

text \<open>
  C3. The listing stage: a live process running \<open>ps\<close> is the great-grandchild
  (pid 3); its standard output is the write end of the grandchild's pipe and it
  holds no other pipe end (lines 82 to 88).
\<close>

theorem ps_stage_wiring:
  assumes "reach c s" "std_open c" "i < length (procs s)" "pexit (procs s ! i) = None"
    and "code (procs s ! i) = Ext (Ps ls k)"
  shows "i = 3 \<and> slot_get (fdt (procs s ! i)) = (slot_get (init_fdt c))(1 \<mapsto> PipeW (2, 1))"
  using live_tbl [OF assms(1,3,4)] assms(5) ps_map [OF assms(2)] by simp

section \<open>Descriptor 0 closed at start\<close>

lemma rA_closed0: "slot_get (init_fdt c) 0 = None \<Longrightarrow> rA c = 0"
  using first_free_le [of "init_fdt c" 0] by (simp add: rA_def fd_pipe_def Let_def)

lemma wc_tbl_closed0:
  assumes "slot_get (init_fdt c) 0 = None"
  shows "slot_get (fst (loc_tbl c (Ext (Wc n)))) 0 = None"
  using pipe_fds [of c] rA_closed0 [OF assms]
  by (simp add: loc_tbl_def slot_simps slot_tA)

lemma grep_tbl_closed0:
  assumes "slot_get (init_fdt c) 0 = None"
  shows "slot_get (fst (loc_tbl c (Ext (Grep t b)))) 0 = None"
  using pipe_fds [of c] rA_closed0 [OF assms]
  by (simp add: loc_tbl_def slot_simps slot_tA slot_tB)

text \<open>
  C11. A code defect: when the supervisor starts with descriptor 0 closed, the
  child's \<open>pipe(fds[0])\<close> returns descriptor 0 as the read end, so
  \<open>dup2(fds[0][0], STDIN_FILENO)\<close> (line 106) does nothing and
  \<open>close(fds[0][0])\<close> (line 107) closes the child's standard input; the
  grandchild, which moves its own pipe's read end onto descriptor 0 at line 94,
  closes it again at line 96 as \<open>fds[0][0]\<close>. In every interleaving both
  \<open>wc\<close> and \<open>grep\<close> run with descriptor 0 closed, and their first read fails.
\<close>

theorem closed_stdin_stages:
  assumes "reach c s" "slot_get (init_fdt c) 0 = None" "i < length (procs s)" "pexit (procs s ! i) = None"
    and "code (procs s ! i) = Ext (Wc n) \<or> code (procs s ! i) = Ext (Grep t b)"
  shows "slot_get (fdt (procs s ! i)) 0 = None \<and> fst (read_fd i 0 s) = RErr"
proof -
  have "slot_get (fdt (procs s ! i)) 0 = None"
    using live_tbl(1) [OF assms(1,3,4)] assms(5) wc_tbl_closed0 [OF assms(2)] grep_tbl_closed0 [OF assms(2)]
    by auto
  then show ?thesis by (simp add: read_fd_def)
qed

end
