(* ===== verification/Scenarios.thy ===== *)
theory Scenarios
  imports Processes
begin

text \<open>
  Concrete configurations and schedules, run by the kernel's simplifier: they
  show that the states the theorems speak about are reached by real executions
  of \<open>main\<close>. \<open>demo_cfg\<close> is the usual invocation \<open>./processes bash\<close> from a
  terminal (descriptors 0, 1 and 2 open, nothing fails); \<open>demo_sched\<close> runs the
  supervisor to its \<open>wait\<close> and each stage up to its command; \<open>demo_pre\<close>,
  \<open>demo_waited\<close> and \<open>demo_final\<close> continue it to the end of the run.
  \<open>closed0_cfg\<close> is the same invocation with descriptor 0 closed at start.
\<close>

lemmas eval_simps = pstep_def do_fork_def do_pipe_def do_exec_def do_close_def do_dup2_def
  do_wait_def do_cmd_def children_def perror_exit_def fd_of_def pick_def Let_def kernel_simps
  fork_proc_def upd_proc_def goto_def exit_proc_def fd_pipe_def fd_close_def fd_dup2_def
  slot_get_def slot_set_def say_def write_fd_def read_fd_def holds_def cmd_step_def
  ps_listing_def init_sys_def

definition demo_cfg :: cfg where
  "demo_cfg =
     \<lparr>argv = [''./processes'', ''bash''],
      init_fdt = [Some (Term 0), Some (Term 1), Some (Term 2)],
      others = [''USER PID COMMAND'', ''root 1 /sbin/init'', ''me 7 -bash''],
      fails = (\<lambda>_. False)\<rparr>"

definition demo_sched :: "pid list" where
  "demo_sched = [0, 0, 1, 1, 1, 1, 1, 1, 2, 2, 2, 2, 2, 2, 2, 2, 2, 3, 3, 3, 3, 3, 3]"

definition demo_running :: sys where
  "demo_running = the (run demo_cfg demo_sched (init_sys demo_cfg))"

text \<open>
  The same invocation run to its end: \<open>ps\<close> writes its seven lines and exits,
  \<open>grep\<close> passes the three that contain "bash" and exits at end of file,
  \<open>wc\<close> counts them and exits, and the supervisor returns from \<open>wait\<close>
  (\<open>demo_waited\<close>), prints "commands completed" and exits (\<open>demo_final\<close>).
\<close>

definition demo_pre :: "pid list" where
  "demo_pre = demo_sched @ [3, 3, 3, 3, 3, 3, 3, 3, 2, 2, 2, 2, 2, 2, 2, 2, 1, 1, 1, 1, 0]"

definition demo_waited :: sys where
  "demo_waited = the (run demo_cfg demo_pre (init_sys demo_cfg))"

definition demo_final :: sys where
  "demo_final = the (run demo_cfg [0, 0] demo_waited)"

text \<open>The same invocation with descriptor 0 closed, up to the three commands.\<close>

definition closed0_cfg :: cfg where
  "closed0_cfg = demo_cfg\<lparr>init_fdt := [None, Some (Term 1), Some (Term 2)]\<rparr>"

definition closed0_running :: sys where
  "closed0_running = the (run closed0_cfg demo_sched (init_sys closed0_cfg))"

text \<open>
  The same invocation in which the child's \<open>execlp("wc", ...)\<close> fails: the child
  reports it and exits, the supervisor's \<open>wait\<close> returns, and it prints
  "commands completed" and returns 0.
\<close>

definition execfail_cfg :: cfg where
  "execfail_cfg = demo_cfg\<lparr>fails := (\<lambda>l. l = L108)\<rparr>"

definition execfail_sched :: "pid list" where
  "execfail_sched = [0, 0, 1, 1, 1, 1, 1, 1, 0, 0, 0]"

definition execfail_final :: sys where
  "execfail_final = the (run execfail_cfg execfail_sched (init_sys execfail_cfg))"

text \<open>
  The same invocation in which the child's \<open>fork\<close> of the grandchild fails:
  the child reports it and exits, and the supervisor completes.
\<close>

definition forkfail67_cfg :: cfg where
  "forkfail67_cfg = demo_cfg\<lparr>fails := (\<lambda>l. l = L67)\<rparr>"

definition forkfail67_final :: sys where
  "forkfail67_final = the (run forkfail67_cfg [0, 0, 1, 1, 0, 0, 0] (init_sys forkfail67_cfg))"

lemma demo_running_run: "run demo_cfg demo_sched (init_sys demo_cfg) = Some demo_running"
proof -
  have "run demo_cfg demo_sched (init_sys demo_cfg) \<noteq> None"
    by (simp add: demo_cfg_def demo_sched_def eval_simps)
  then show ?thesis by (auto simp: demo_running_def)
qed

lemma demo_running_reach: "reach demo_cfg demo_running"
  by (rule run_reach [OF demo_running_run reach.start])

lemma demo_running_procs:
  "length (procs demo_running) = 4"
  "code (procs demo_running ! 0) = L114"
  "code (procs demo_running ! 1) = Ext (Wc 0)"
  "code (procs demo_running ! 2) = Ext (Grep ''bash'' False)"
  "code (procs demo_running ! 3) = Ext (Ps [''USER PID COMMAND'', ''root 1 /sbin/init'', ''me 7 -bash'',
      ''./processes bash'', ''wc -l'', ''grep bash'', ''ps aux''] 0)"
  "pexit (procs demo_running ! 1) = None"
  "pexit (procs demo_running ! 2) = None"
  "pexit (procs demo_running ! 3) = None"
  by (simp_all add: demo_running_def demo_cfg_def demo_sched_def eval_simps)

lemma demo_complete_eval:
  "(case run demo_cfg demo_pre (init_sys demo_cfg) of None \<Rightarrow> False
    | Some s \<Rightarrow> code (procs s ! 0) = L115
      \<and> (case run demo_cfg [0, 0] s of None \<Rightarrow> False
         | Some s' \<Rightarrow> length (procs s') = 4 \<and> list_all (\<lambda>p. pexit p \<noteq> None) (procs s')
             \<and> out s' = [(1, ''3''), (1, ''commands completed'')]))"
  by code_simp

lemma demo_complete:
  "run demo_cfg demo_pre (init_sys demo_cfg) = Some demo_waited" "code (procs demo_waited ! 0) = L115"
  "run demo_cfg [0, 0] demo_waited = Some demo_final" "length (procs demo_final) = 4"
  "\<forall>i < length (procs demo_final). pexit (procs demo_final ! i) \<noteq> None"
  "out demo_final = [(1, ''3''), (1, ''commands completed'')]"
  using demo_complete_eval
  by (auto simp: demo_waited_def demo_final_def list_all_length split: option.splits)

lemma demo_complete_reach: "reach demo_cfg demo_waited" "reach demo_cfg demo_final"
  using run_reach [OF demo_complete(1) reach.start] run_reach [OF demo_complete(3)] by blast+

lemma closed0_running_run: "run closed0_cfg demo_sched (init_sys closed0_cfg) = Some closed0_running"
proof -
  have "run closed0_cfg demo_sched (init_sys closed0_cfg) \<noteq> None"
    by (simp add: closed0_cfg_def demo_cfg_def demo_sched_def eval_simps)
  then show ?thesis by (auto simp: closed0_running_def)
qed

lemma closed0_running_procs:
  "length (procs closed0_running) = 4" "code (procs closed0_running ! 1) = Ext (Wc 0)"
  "pexit (procs closed0_running ! 1) = None"
  by (simp_all add: closed0_running_def closed0_cfg_def demo_cfg_def demo_sched_def eval_simps)

lemma execfail_final_run:
  "run execfail_cfg execfail_sched (init_sys execfail_cfg) = Some execfail_final"
proof -
  have "run execfail_cfg execfail_sched (init_sys execfail_cfg) \<noteq> None"
    by (simp add: execfail_cfg_def demo_cfg_def execfail_sched_def eval_simps)
  then show ?thesis by (auto simp: execfail_final_def)
qed

lemma execfail_final_procs:
  "length (procs execfail_final) = 3"
  "pexit (procs execfail_final ! 0) = Some (Exited 0)"
  "pexit (procs execfail_final ! 1) = Some (Exited 255)"
  "out execfail_final = [(2, ''execlp wc failed''), (1, ''commands completed'')]"
  "code (procs execfail_final ! 0) = L118"
  "code (procs execfail_final ! 1) = L108"
  by (simp_all add: execfail_final_def execfail_cfg_def demo_cfg_def execfail_sched_def eval_simps)

lemma forkfail67_final_run:
  "run forkfail67_cfg [0, 0, 1, 1, 0, 0, 0] (init_sys forkfail67_cfg) = Some forkfail67_final"
proof -
  have "run forkfail67_cfg [0, 0, 1, 1, 0, 0, 0] (init_sys forkfail67_cfg) \<noteq> None"
    by (simp add: forkfail67_cfg_def demo_cfg_def eval_simps)
  then show ?thesis by (auto simp: forkfail67_final_def)
qed

lemma forkfail67_final_procs:
  "length (procs forkfail67_final) = 2"
  "pexit (procs forkfail67_final ! 0) = Some (Exited 0)"
  "pexit (procs forkfail67_final ! 1) = Some (Exited 255)"
  by (simp_all add: forkfail67_final_def forkfail67_cfg_def demo_cfg_def eval_simps)

end
