(* ===== verification/Liveness.thy ===== *)
theory Liveness
  imports Wiring
begin

text \<open>
  Progress of the pipeline: in every reachable state some process can step
  while any process is alive, for every environment (any failures, any
  inherited descriptors that are not pipe ends). A stage blocks only when it
  reads an empty pipe that some process still holds open for writing
  (\<open>cmd_step_Blocked\<close>), and the supervisor only while its child lives. The
  proof takes the live process with the highest pid: every process that could
  hold the write end of its input pipe is either itself, a lower pid, or dead,
  and the lemmas below show that none of the live ones does, because each stage
  closed every write end it inherited but does not use (lines 93, 105 and the
  pipes created after the fork) and a dead process holds nothing.
\<close>

section \<open>Which open files a table can hold\<close>

definition terms_only :: "cfg \<Rightarrow> bool" where
  "terms_only c \<longleftrightarrow> list_all (\<lambda>x. case x of Some (PipeR _) \<Rightarrow> False | Some (PipeW _) \<Rightarrow> False | _ \<Rightarrow> True) (init_fdt c)"

lemma terms_only_D:
  assumes "terms_only c"
  shows "slot_get (init_fdt c) n \<noteq> Some (PipeR p)" "slot_get (init_fdt c) n \<noteq> Some (PipeW p)"
proof -
  let ?P = "\<lambda>x. case x of Some (PipeR _) \<Rightarrow> False | Some (PipeW _) \<Rightarrow> False | _ \<Rightarrow> True"
  have "?P (slot_get (init_fdt c) n)"
  proof (cases "n < length (init_fdt c)")
    case True
    then show ?thesis using assms by (simp add: terms_only_def list_all_length slot_get_def)
  next
    case False
    then show ?thesis by (simp add: slot_get_def)
  qed
  then show "slot_get (init_fdt c) n \<noteq> Some (PipeR p)" "slot_get (init_fdt c) n \<noteq> Some (PipeW p)"
    by auto
qed

definition vals :: "(fd \<rightharpoonup> ofile) \<Rightarrow> ofile set" where
  "vals m = {x. \<exists>n. m n = Some x}"

lemma vals_close: "vals (close_map n m) \<subseteq> vals m"
  by (auto simp: vals_def close_map_def split: if_splits)

lemma vals_dup2: "vals (dup2_map old new m) \<subseteq> vals m"
  by (auto simp: vals_def dup2_map_def split: option.splits if_splits)

text \<open>
  \<open>close\<close> and \<open>dup2\<close> never make a table refer to a file it did not refer to
  before; only \<open>pipe\<close> adds files, its own two ends.
\<close>

fun op_ends :: "fdop \<Rightarrow> ofile set" where
  "op_ends (OPipe p k) = {PipeR p, PipeW p}"
| "op_ends _ = {}"

lemma vals_apply_fdop:
  "vals (slot_get (fst (apply_fdop (t, f) op))) \<subseteq> vals (slot_get t) \<union> op_ends op"
proof (cases op)
  case (OPipe p k)
  then show ?thesis by (auto simp: vals_def slot_simps split: if_splits)
next
  case (OClose k j)
  then show ?thesis
    by (cases "f k") (auto simp: slot_simps dest: vals_close [THEN subsetD])
next
  case (ODup2 k j n)
  then show ?thesis
    by (cases "f k") (auto simp: slot_simps dest: vals_dup2 [THEN subsetD])
qed

lemma vals_fold:
  "vals (slot_get (fst (foldl apply_fdop (t, f) ops))) \<subseteq> vals (slot_get t) \<union> (\<Union>op \<in> set ops. op_ends op)"
proof (induction ops arbitrary: t f)
  case Nil
  then show ?case by simp
next
  case (Cons op ops)
  obtain t' f' where op: "apply_fdop (t, f) op = (t', f')" by (cases "apply_fdop (t, f) op")
  have "vals (slot_get t') \<subseteq> vals (slot_get t) \<union> op_ends op"
    using vals_apply_fdop [of t f op] op by simp
  moreover have "vals (slot_get (fst (foldl apply_fdop (t', f') ops)))
      \<subseteq> vals (slot_get t') \<union> (\<Union>op \<in> set ops. op_ends op)" by (rule Cons.IH)
  ultimately show ?case using op by auto
qed

lemma vals_loc_tbl:
  "vals (slot_get (fst (loc_tbl c l))) \<subseteq> vals (slot_get (init_fdt c)) \<union> (\<Union>op \<in> set (fd_path l). op_ends op)"
  unfolding loc_tbl_def by (rule vals_fold)

lemma init_no_pipe_vals:
  assumes "terms_only c"
  shows "PipeR p \<notin> vals (slot_get (init_fdt c))" "PipeW p \<notin> vals (slot_get (init_fdt c))"
  using terms_only_D [OF assms] by (auto simp: vals_def)

lemma held_in_path:
  assumes "terms_only c" "slot_get (fst (loc_tbl c l)) n = Some x" "x = PipeR p \<or> x = PipeW p"
  shows "x \<in> (\<Union>op \<in> set (fd_path l). op_ends op)"
proof -
  have "x \<in> vals (slot_get (fst (loc_tbl c l)))" using assms(2) by (auto simp: vals_def)
  then show ?thesis using vals_loc_tbl [of c l] init_no_pipe_vals [OF assms(1)] assms(3) by blast
qed

text \<open>Every pipe end a live process holds is an end of one of the two pipes.\<close>

lemma loc_pipe_ids:
  assumes "terms_only c" "slot_get (fst (loc_tbl c l)) n = Some x" "x = PipeR p \<or> x = PipeW p"
  shows "p = (1, 0) \<or> p = (2, 1)"
  using held_in_path [OF assms] assms(3) by (cases l rule: fd_path.cases) auto

text \<open>The child forked the grandchild before the second pipe existed.\<close>

lemma child_no_pipeB:
  assumes "terms_only c" "role l \<le> 1"
  shows "slot_get (fst (loc_tbl c l)) n \<noteq> Some (PipeR (2, 1))"
    and "slot_get (fst (loc_tbl c l)) n \<noteq> Some (PipeW (2, 1))"
  using held_in_path [OF assms(1)] assms(2) by (cases l rule: fd_path.cases; fastforce)+

text \<open>The supervisor never holds a pipe end.\<close>

lemma supervisor_no_pipes:
  assumes "terms_only c" "role l = 0"
  shows "slot_get (fst (loc_tbl c l)) n \<noteq> Some (PipeR p) \<and> slot_get (fst (loc_tbl c l)) n \<noteq> Some (PipeW p)"
proof -
  have "fd_path l = []" using assms(2) by (cases l rule: fd_path.cases) auto
  then show ?thesis using terms_only_D [OF assms(1)] by (simp add: loc_tbl_def)
qed

text \<open>
  The closes that liveness rests on: \<open>wc\<close> no longer holds the write end of its
  own input pipe (line 105), and \<open>grep\<close> holds neither the write end of its
  input pipe (line 93) nor the read end of its output pipe (line 96).
\<close>

lemma wc_no_write_A:
  assumes "terms_only c"
  shows "slot_get (fst (loc_tbl c (Ext (Wc n)))) k \<noteq> Some (PipeW (1, 0))"
  using pipe_fds [of c] terms_only_D [OF assms, of k]
  by (auto simp: loc_tbl_def slot_simps slot_tA split: if_splits)

lemma grep_no_write_B:
  assumes "terms_only c"
  shows "slot_get (fst (loc_tbl c (Ext (Grep t b)))) k \<noteq> Some (PipeW (2, 1))"
  using pipe_fds [of c] terms_only_D [OF assms, of k]
  by (auto simp: loc_tbl_def slot_simps slot_tA slot_tB split: if_splits)

lemma grep_no_read_A:
  assumes "terms_only c"
  shows "slot_get (fst (loc_tbl c (Ext (Grep t b)))) k \<noteq> Some (PipeR (1, 0))"
  using pipe_fds [of c] terms_only_D [OF assms, of k]
  by (auto simp: loc_tbl_def slot_simps slot_tA slot_tB split: if_splits)

section \<open>Progress\<close>

text \<open>Every statement other than \<open>wait\<close> and a command's read can always be executed.\<close>

lemma exec_loc_total:
  assumes "fds (procs s ! j) = snd (loc_tbl c (code (procs s ! j)))"
    and "code (procs s ! j) \<noteq> L114" "\<forall>m. code (procs s ! j) \<noteq> Ext m"
  shows "exec_loc c j (code (procs s ! j)) s \<noteq> None"
  using assms by (cases "code (procs s ! j)") (simp_all add: do_close_def do_dup2_def fd_of_def loc_tbl_def)

text \<open>A live holder of a file is a live process whose replayed table refers to it.\<close>

lemma holder_live:
  assumes "reach c s" "holds s x"
  shows "\<exists>q < length (procs s). pexit (procs s ! q) = None
           \<and> (\<exists>n. slot_get (fst (loc_tbl c (code (procs s ! q)))) n = Some x)
           \<and> role (code (procs s ! q)) = q"
proof -
  obtain pq where pq: "pq \<in> set (procs s)" "Some x \<in> set (fdt pq)"
    using assms(2) by (auto simp: holds_def)
  then obtain q where q: "q < length (procs s)" and x: "Some x \<in> set (fdt (procs s ! q))"
    by (metis in_set_conv_nth)
  have live: "pexit (procs s ! q) = None"
    using inv_proc [OF reach_inv [OF assms(1)] q] x by (auto simp: proc_ok_def)
  show ?thesis using q live x live_tbl [OF assms(1) q live] by (auto dest: in_set_slot)
qed

lemma cmd_step_Ps_not_Blocked: "fst (cmd_step i (Ps ls k) s) \<noteq> Blocked"
  by (simp add: cmd_step_def split: wres.splits)

text \<open>
  The live process with the highest pid is never blocked on a read: the write
  ends of its input pipe are held only by itself and lower pids, and none of
  those holds one.
\<close>

lemma top_cmd_not_blocked:
  assumes r: "reach c s" and t: "terms_only c" and j: "j < length (procs s)"
    and live: "pexit (procs s ! j) = None" and m: "code (procs s ! j) = Ext m"
    and top: "\<forall>k. j < k \<and> k < length (procs s) \<longrightarrow> pexit (procs s ! k) \<noteq> None"
  shows "fst (cmd_step j m s) \<noteq> Blocked"
proof
  assume blk: "fst (cmd_step j m s) = Blocked"
  then obtain p where rd: "slot_get (fdt (procs s ! j)) 0 = Some (PipeR p)" and h: "holds s (PipeW p)"
    using cmd_step_Blocked by blast
  have tj: "fdt (procs s ! j) = fst (loc_tbl c (Ext m))" and rj: "role (Ext m) = j"
    using live_tbl [OF r j live] m by simp_all
  obtain q n where q: "q < length (procs s)" "pexit (procs s ! q) = None"
    and qn: "slot_get (fst (loc_tbl c (code (procs s ! q)))) n = Some (PipeW p)"
    and rq: "role (code (procs s ! q)) = q"
    using holder_live [OF r h] by blast
  have "q \<le> j" using top q not_le by blast
  show False
  proof (cases m)
    case (Ps ls k)
    then show False using blk cmd_step_Ps_not_Blocked [of j ls k s] by simp
  next
    case (Wc n')
    then have "j = 1" using rj by simp
    have "slot_get (fst (loc_tbl c (Ext m))) 0 = Some (PipeR p)" using rd tj by simp
    then have "p = (1, 0) \<or> p = (2, 1)" using loc_pipe_ids [OF t] by blast
    then have p: "p = (1, 0)" using child_no_pipeB [OF t, of "Ext m"] rd tj Wc by auto
    consider "q = 0" | "q = 1" using \<open>q \<le> j\<close> \<open>j = 1\<close> by linarith
    then show False
    proof cases
      case 1
      then show False using supervisor_no_pipes [OF t] qn rq by blast
    next
      case 2
      then have "code (procs s ! q) = Ext m" using \<open>j = 1\<close> m by simp
      then show False using wc_no_write_A [OF t] qn p Wc by simp
    qed
  next
    case (Grep pt b)
    then have "j = 2" using rj by simp
    have "slot_get (fst (loc_tbl c (Ext m))) 0 = Some (PipeR p)" using rd tj by simp
    then have "p = (1, 0) \<or> p = (2, 1)" using loc_pipe_ids [OF t] by blast
    then have p: "p = (2, 1)" using grep_no_read_A [OF t] rd tj Grep by auto
    consider "q = 0" | "q = 1" | "q = 2" using \<open>q \<le> j\<close> \<open>j = 2\<close> by linarith
    then show False
    proof cases
      case 1
      then show False using supervisor_no_pipes [OF t] qn rq by blast
    next
      case 2
      then show False using child_no_pipeB [OF t] qn rq p by simp
    next
      case 3
      then have "code (procs s ! q) = Ext m" using \<open>j = 2\<close> m by simp
      then show False using grep_no_write_B [OF t] qn p Grep by simp
    qed
  qed
qed

text \<open>The supervisor's \<open>wait\<close> returns once every other process has ended.\<close>

lemma top_wait_returns:
  assumes r: "reach c s" and j: "0 < length (procs s)"
    and top: "\<forall>k. 0 < k \<and> k < length (procs s) \<longrightarrow> pexit (procs s ! k) \<noteq> None"
  shows "do_wait 0 l s \<noteq> None"
proof -
  have p0: "ppid (procs s ! 0) = None"
    using inv_proc [OF reach_inv [OF r] j] by (simp add: proc_ok_def)
  have "k \<noteq> 0" if "k \<in> set (children s 0)" for k
  proof
    assume "k = 0"
    with that p0 show False by (simp add: children_def)
  qed
  then have "\<forall>k \<in> set (children s 0). pexit (procs s ! k) \<noteq> None"
    using top by (auto simp: children_def)
  then show ?thesis by (cases "children s 0") (auto simp: do_wait_def)
qed

lemma do_cmd_not_None:
  assumes "fst (cmd_step i m s) \<noteq> Blocked"
  shows "do_cmd i m s \<noteq> None"
proof -
  obtain r s' where rs: "cmd_step i m s = (r, s')" by (cases "cmd_step i m s")
  show ?thesis using assms rs by (cases r) (simp_all add: do_cmd_def)
qed

lemma top_live:
  assumes "\<exists>i < length (procs s). pexit (procs s ! i) = None"
  obtains j where "j < length (procs s)" "pexit (procs s ! j) = None"
    "\<forall>k. j < k \<and> k < length (procs s) \<longrightarrow> pexit (procs s ! k) \<noteq> None"
proof -
  let ?J = "{i. i < length (procs s) \<and> pexit (procs s ! i) = None}"
  have fin: "finite ?J" and ne: "?J \<noteq> {}" using assms by auto
  have "Max ?J \<in> ?J" using Max_in [OF fin ne] .
  moreover have "pexit (procs s ! k) \<noteq> None" if "Max ?J < k" "k < length (procs s)" for k
  proof
    assume "pexit (procs s ! k) = None"
    with that(2) have "k \<in> ?J" by simp
    then have "k \<le> Max ?J" by (rule Max_ge [OF fin])
    with that(1) show False by simp
  qed
  ultimately show ?thesis using that by blast
qed

text \<open>The highest live process is never stuck.\<close>

lemma top_steps:
  assumes r: "reach c s" and t: "terms_only c" and j: "j < length (procs s)"
    and live: "pexit (procs s ! j) = None"
    and top: "\<forall>k. j < k \<and> k < length (procs s) \<longrightarrow> pexit (procs s ! k) \<noteq> None"
  shows "\<exists>s'. pstep c j s = Some s'"
proof -
  have rj: "role (code (procs s ! j)) = j" using live_tbl(2) [OF r j live] .
  have fds: "fds (procs s ! j) = snd (loc_tbl c (code (procs s ! j)))"
    using live_at(2) [OF reach_inv [OF r] j live] by (metis snd_conv)
  have "exec_loc c j (code (procs s ! j)) s \<noteq> None"
  proof (cases "code (procs s ! j) = L114")
    case True
    then have "j = 0" using rj by simp
    then show ?thesis using True top_wait_returns [OF r] j top by simp
  next
    case False
    show ?thesis
    proof (cases "code (procs s ! j)")
      case (Ext m)
      then have "fst (cmd_step j m s) \<noteq> Blocked" by (rule top_cmd_not_blocked [OF r t j live _ top])
      then show ?thesis using Ext by (simp add: do_cmd_not_None)
    qed (rule exec_loc_total [OF fds False]; simp)+
  qed
  then show ?thesis using j live by (auto simp: pstep_def)
qed

lemma live_can_step:
  assumes "reach c s" "terms_only c" "\<exists>i < length (procs s). pexit (procs s ! i) = None"
  shows "\<exists>s'. step c s s'"
proof -
  obtain j where "j < length (procs s)" "pexit (procs s ! j) = None"
    "\<forall>k. j < k \<and> k < length (procs s) \<longrightarrow> pexit (procs s ! k) \<noteq> None"
    using top_live [OF assms(3)] by blast
  then show ?thesis using top_steps [OF assms(1,2)] by (blast intro: step.run_proc)
qed

text \<open>
  C4. No deadlock: in every reachable state of every interleaving, under any
  combination of failing system calls and with inherited descriptors that
  are not pipe ends (\<open>terms_only\<close>), some process can take a step as long as
  one is alive: the highest-numbered live process is never blocked. This is
  the property the spec's endpoint-closing discipline is for (sections 3 and 5):
  no reader waits for an end of file that never comes.
\<close>

theorem progress:
  assumes r: "reach c s" and t: "terms_only c"
    and alive: "\<exists>i < length (procs s). pexit (procs s ! i) = None"
  shows "\<exists>s'. step c s s'"
proof -
  obtain j where j: "j < length (procs s)" and live: "pexit (procs s ! j) = None"
    and top: "\<forall>k. j < k \<and> k < length (procs s) \<longrightarrow> pexit (procs s ! k) \<noteq> None"
    using top_live [OF alive] by blast
  obtain s' where "pstep c j s = Some s'" using top_steps [OF r t j live top] by blast
  then show ?thesis by (blast intro: step.run_proc)
qed

end
