(* ===== verification/Termination.thy ===== *)
theory Termination
  imports Liveness
begin

text \<open>
  Every run of the pipeline is finite. The measure adds, for every live process,
  the work left to it and to the processes it will fork (\<open>rank\<close>: three units per
  statement, three per line \<open>ps\<close> has still to write), and, for every line
  waiting in a pipe, the work left to move it on: two units in the grandchild's
  pipe (a read by \<open>grep\<close> and maybe a read by \<open>wc\<close>), one in the child's pipe.
  Every step lowers the measure: a statement spends three units and writes at
  most one line, worth at most two; \<open>grep\<close> moves a line from a two-unit place to
  at most a one-unit place, because it holds neither the write end of its input
  nor the read end of its output; \<open>wc\<close> consumes one-unit lines and writes to no
  pipe. The bound on the \<open>ps\<close> snapshot (\<open>snap_bound\<close>) is the number of lines
  of the rest of the system plus the at most four processes of the pipeline
  (\<open>proc_inv\<close>). So the step relation is well-founded on reachable states
  (\<open>step_wf\<close>), and with \<open>live_can_step\<close> of \<open>Liveness\<close> every run can be
  completed to a state where all processes have exited (\<open>run_completes\<close>).
  This needs the inherited descriptors to hold no pipe end: a \<open>grep\<close> whose
  standard input and output were the two ends of one inherited pipe would feed
  its own output back to itself.
\<close>

section \<open>The measure\<close>

fun rank :: "nat \<Rightarrow> loc \<Rightarrow> nat" where
  "rank P L52 = 3 * P + 79"
| "rank P L58 = 3 * P + 76"
| "rank P L114 = 7"
| "rank P L115 = 4"
| "rank P L118 = 1"
| "rank P L62 = 3 * P + 66"
| "rank P L67 = 3 * P + 63"
| "rank P L105 = 13"
| "rank P L106 = 10"
| "rank P L107 = 7"
| "rank P L108 = 4"
| "rank P L72 = 3 * P + 47"
| "rank P L77 = 3 * P + 44"
| "rank P L93 = 22"
| "rank P L94 = 19"
| "rank P L95 = 16"
| "rank P L96 = 13"
| "rank P L97 = 10"
| "rank P L98 = 7"
| "rank P L99 = 4"
| "rank P L82 = 3 * P + 19"
| "rank P L83 = 3 * P + 16"
| "rank P L84 = 3 * P + 13"
| "rank P L85 = 3 * P + 10"
| "rank P L86 = 3 * P + 7"
| "rank P L88 = 3 * P + 4"
| "rank P (Ext (Ps ls k)) = 3 * (length ls - k) + 1"
| "rank P (Ext (Grep _ _)) = 1"
| "rank P (Ext (Wc _)) = 1"

definition snap_bound :: "cfg \<Rightarrow> nat" where
  "snap_bound c = length (others c) + 4"

definition prank :: "cfg \<Rightarrow> loc proc \<Rightarrow> nat" where
  "prank c p = (if pexit p = None then rank (snap_bound c) (code p) else 0)"

fun pweight :: "pipe_id \<Rightarrow> nat" where
  "pweight p = (if p = (2, 1) then 2 else if p = (1, 0) then 1 else 0)"

definition bw :: "sys \<Rightarrow> nat" where
  "bw s = 2 * length (bufs s (2, 1)) + length (bufs s (1, 0))"

text \<open>The weight a write adds through a descriptor.\<close>

definition wweight :: "ofile option \<Rightarrow> nat" where
  "wweight x = (case x of Some (PipeW p) \<Rightarrow> pweight p | _ \<Rightarrow> 0)"

definition msr :: "cfg \<Rightarrow> sys \<Rightarrow> nat" where
  "msr c s = sum_list (map (prank c) (procs s)) + bw s"

section \<open>How the kernel operations change the measure\<close>

lemma sum_list_map_update:
  "i < length xs \<Longrightarrow> sum_list (map (f :: _ \<Rightarrow> nat) (xs[i := x])) + f (xs ! i) = sum_list (map f xs) + f x"
proof (induction xs arbitrary: i)
  case Nil
  then show ?case by simp
next
  case (Cons y ys)
  show ?case
  proof (cases i)
    case 0
    then show ?thesis by simp
  next
    case (Suc k)
    then show ?thesis using Cons by simp
  qed
qed

lemma bw_push: "bw (s\<lparr>bufs := (bufs s)(p := bufs s p @ [l])\<rparr>) = bw s + pweight p"
  by (cases "p = (2, 1)"; cases "p = (1, 0)") (simp_all add: bw_def)

lemma bw_pop: "bufs s p = l # ls \<Longrightarrow> bw (s\<lparr>bufs := (bufs s)(p := ls)\<rparr>) + pweight p = bw s"
  by (cases "p = (2, 1)"; cases "p = (1, 0)") (simp_all add: bw_def)

lemma wweight_le: "wweight x \<le> 2"
  by (auto simp: wweight_def split: option.splits ofile.splits)

lemma write_bw:
  assumes "write_fd i n l s = WOk s'"
  shows "bw s' \<le> bw s + wweight (slot_get (fdt (procs s ! i)) n)"
proof (cases "slot_get (fdt (procs s ! i)) n")
  case None
  then show ?thesis using assms by (simp add: write_fd_def)
next
  case (Some f)
  then show ?thesis
  proof (cases f)
    case (Term k)
    then show ?thesis using assms Some by (auto simp: write_fd_def bw_def)
  next
    case (PipeR p)
    then show ?thesis using assms Some by (simp add: write_fd_def)
  next
    case (PipeW p)
    then show ?thesis using assms Some bw_push [of s p l]
      by (auto simp: write_fd_def wweight_def split: if_splits)
  qed
qed

lemma read_bw:
  assumes "read_fd i n s = (RLine l, s')"
  shows "\<exists>p. slot_get (fdt (procs s ! i)) n = Some (PipeR p) \<and> bw s' + pweight p = bw s \<and> procs s' = procs s"
proof (cases "slot_get (fdt (procs s ! i)) n")
  case None
  then show ?thesis using assms by (simp add: read_fd_def)
next
  case (Some f)
  then show ?thesis
  proof (cases f)
    case (PipeR p)
    show ?thesis
    proof (cases "bufs s p")
      case Nil
      then show ?thesis using assms Some PipeR by (simp add: read_fd_def split: if_splits)
    next
      case (Cons a ls)
      then show ?thesis using assms Some PipeR bw_pop [OF Cons] by (auto simp: read_fd_def)
    qed
  qed (use assms Some in \<open>simp_all add: read_fd_def\<close>)
qed

lemma read_other: "(\<forall>l. fst (read_fd i n s) \<noteq> RLine l) \<Longrightarrow> snd (read_fd i n s) = s"
  by (auto simp: read_fd_def split: option.splits ofile.splits list.splits)

lemma msr_upd:
  assumes "i < length (procs s)" "pexit (procs s ! i) = None" "pexit p' = None" "bufs s' = bufs s"
    and "procs s' = (procs s)[i := p']"
  shows "msr c s' + rank (snap_bound c) (code (procs s ! i)) = msr c s + rank (snap_bound c) (code p')"
  using sum_list_map_update [OF assms(1), of "prank c" p'] assms
  by (simp add: msr_def bw_def prank_def)

lemma msr_exit:
  assumes "i < length (procs s)" "pexit (procs s ! i) = None"
  shows "msr c (exit_proc i st s) + rank (snap_bound c) (code (procs s ! i)) = msr c s"
  using sum_list_map_update [OF assms(1), of "prank c" "(procs s ! i)\<lparr>pexit := Some st, fdt := []\<rparr>"] assms
  by (simp add: msr_def bw_def prank_def exit_proc_def upd_proc_def)

lemma msr_goto:
  assumes "i < length (procs s)" "pexit (procs s ! i) = None"
  shows "msr c (goto i l s) + rank (snap_bound c) (code (procs s ! i)) = msr c s + rank (snap_bound c) l"
  using msr_upd [OF assms, of "(procs s ! i)\<lparr>code := l\<rparr>" "goto i l s" c] assms
  by (simp add: goto_def upd_proc_def)

lemma msr_fork:
  assumes "i < length (procs s)" "pexit (procs s ! i) = None"
  shows "msr c (goto i lp (fork_proc i lc s)) + rank (snap_bound c) (code (procs s ! i))
       = msr c s + rank (snap_bound c) lp + rank (snap_bound c) lc"
proof -
  let ?s1 = "fork_proc i lc s"
  have i1: "i < length (procs ?s1)" "pexit (procs ?s1 ! i) = None" "code (procs ?s1 ! i) = code (procs s ! i)"
    using assms by (simp_all add: fork_proc_def nth_append)
  have "msr c (goto i lp ?s1) + rank (snap_bound c) (code (procs s ! i)) = msr c ?s1 + rank (snap_bound c) lp"
    using msr_goto [OF i1(1,2)] i1(3) by simp
  moreover have "msr c ?s1 = msr c s + rank (snap_bound c) lc"
    using assms by (simp add: msr_def bw_def prank_def fork_proc_def)
  ultimately show ?thesis by simp
qed

lemma msr_say_both:
  assumes "i < length (procs s)" "pexit (procs s ! i) = None"
  shows "msr c (say i n msg (goto i l) s) + rank (snap_bound c) (code (procs s ! i)) \<le> msr c s + rank (snap_bound c) l + 2
      \<and> msr c (say i n msg (exit_proc i st) s) + rank (snap_bound c) (code (procs s ! i)) \<le> msr c s + 2"
proof (cases "write_fd i n msg s")
  case (WOk s')
  have w: "bw s' \<le> bw s + 2" "procs s' = procs s"
    using write_bw [OF WOk] wweight_le [of "slot_get (fdt (procs s ! i)) n"] write_fd_procs [OF WOk] by auto
  have a: "i < length (procs s')" "pexit (procs s' ! i) = None" "code (procs s' ! i) = code (procs s ! i)"
    using assms w(2) by simp_all
  have "msr c s' \<le> msr c s + 2" using w by (simp add: msr_def)
  then show ?thesis using WOk msr_goto [OF a(1,2), of c l] msr_exit [OF a(1,2), of c st] a(3)
    by (simp add: say_def)
next
  case WEpipe
  then show ?thesis using msr_exit [OF assms, of c sigpipe] msr_exit [OF assms, of c st] by (simp add: say_def)
next
  case WEbadf
  then show ?thesis using msr_goto [OF assms, of c l] msr_exit [OF assms, of c st] by (simp add: say_def)
qed

lemmas msr_say = msr_say_both [THEN conjunct1] msr_say_both [THEN conjunct2]

lemma msr_upd_proc:
  assumes "i < length (procs s)" "pexit (procs s ! i) = None" "pexit (f (procs s ! i)) = None"
  shows "msr c (upd_proc i f s) + rank (snap_bound c) (code (procs s ! i)) = msr c s + rank (snap_bound c) (code (f (procs s ! i)))"
  by (rule msr_upd) (use assms in \<open>simp_all add: upd_proc_def\<close>)

lemma msr_close:
  assumes "i < length (procs s)" "pexit (procs s ! i) = None" "do_close i k j l s = Some s'"
  shows "msr c s' + rank (snap_bound c) (code (procs s ! i)) = msr c s + rank (snap_bound c) l"
  using assms msr_upd_proc [OF assms(1,2), of "\<lambda>p. p\<lparr>fdt := keep (fd_close (the (fd_of (procs s ! i) k j)) (fdt p)) (fdt p), code := l\<rparr>" c]
  by (auto simp: do_close_def split: option.splits)

lemma msr_dup2:
  assumes "i < length (procs s)" "pexit (procs s ! i) = None" "do_dup2 i k j n l s = Some s'"
  shows "msr c s' + rank (snap_bound c) (code (procs s ! i)) = msr c s + rank (snap_bound c) l"
  using assms msr_upd_proc [OF assms(1,2), of "\<lambda>p. p\<lparr>fdt := keep (fd_dup2 (the (fd_of (procs s ! i) k j)) n (fdt p)) (fdt p), code := l\<rparr>" c]
  by (auto simp: do_dup2_def split: option.splits)

lemma msr_perror:
  assumes "i < length (procs s)" "pexit (procs s ! i) = None"
  shows "msr c (perror_exit i msg s) + rank (snap_bound c) (code (procs s ! i)) \<le> msr c s + 2"
  unfolding perror_exit_def by (rule msr_say(2) [OF assms])

lemma msr_pipe:
  assumes "i < length (procs s)" "pexit (procs s ! i) = None"
  shows "msr c (do_pipe c i k here l s) + rank (snap_bound c) (code (procs s ! i)) \<le> msr c s + rank (snap_bound c) l + 2"
proof (cases "fails c here")
  case True
  then show ?thesis using msr_perror [OF assms, of c "''pipe error''"] by (simp add: do_pipe_def)
next
  case False
  then show ?thesis
    using msr_upd_proc [OF assms, of "\<lambda>p. p\<lparr>fdt := pipe_tbl (i, k) (fdt p),
                              fds := (fds p)(k := Some (fst (fd_pipe (i, k) (fdt p)))), code := l\<rparr>" c] assms
    by (simp add: do_pipe_def)
qed

lemma msr_fork_perror:
  assumes "i < length (procs s)" "pexit (procs s ! i) = None"
  shows "msr c (do_fork c i here lc lp (perror_exit i msg) s) + rank (snap_bound c) (code (procs s ! i))
     \<le> msr c s + rank (snap_bound c) lp + rank (snap_bound c) lc + 2"
  using msr_perror [OF assms, of c msg] msr_fork [OF assms, of c lp lc] by (simp add: do_fork_def)

lemma msr_exec:
  assumes "i < length (procs s)" "pexit (procs s ! i) = None"
  shows "msr c (do_exec c i here args msg mk s) + rank (snap_bound c) (code (procs s ! i))
     \<le> msr c s + rank (snap_bound c) (Ext (mk (upd_proc i (\<lambda>p. p\<lparr>cmdline := args\<rparr>) s))) + 2"
proof (cases "fails c here")
  case True
  then show ?thesis using msr_perror [OF assms, of c msg] by (simp add: do_exec_def)
next
  case False
  let ?s1 = "upd_proc i (\<lambda>p. p\<lparr>cmdline := args\<rparr>) s"
  have a: "i < length (procs ?s1)" "pexit (procs ?s1 ! i) = None" "code (procs ?s1 ! i) = code (procs s ! i)"
    using assms by (simp_all add: upd_proc_def)
  have "msr c ?s1 = msr c s" using msr_upd_proc [OF assms, of "\<lambda>p. p\<lparr>cmdline := args\<rparr>" c] assms by simp
  then show ?thesis using False msr_goto [OF a(1,2), of c "Ext (mk ?s1)"] a(3) by (simp add: do_exec_def Let_def)
qed

text \<open>The snapshot \<open>ps\<close> takes has at most \<open>snap_bound\<close> lines.\<close>

lemma ps_listing_bound:
  "length (procs s) \<le> 4 \<Longrightarrow> length (ps_listing (others c) s) \<le> snap_bound c"
  by (simp add: ps_listing_def snap_bound_def) (rule le_trans [OF length_filter_le])

lemma msr_write:
  assumes "write_fd i n l s = WOk s'"
  shows "msr c s' \<le> msr c s + wweight (slot_get (fdt (procs s ! i)) n) \<and> procs s' = procs s"
proof -
  have "procs s' = procs s" by (rule write_fd_procs [OF assms])
  then show ?thesis using write_bw [OF assms] unfolding msr_def by simp
qed

lemma msr_read:
  assumes "read_fd i n s = (RLine l, s')"
  shows "\<exists>p. slot_get (fdt (procs s ! i)) n = Some (PipeR p) \<and> msr c s' + pweight p = msr c s \<and> procs s' = procs s"
proof -
  obtain p where p: "slot_get (fdt (procs s ! i)) n = Some (PipeR p)" "bw s' + pweight p = bw s" "procs s' = procs s"
    using read_bw [OF assms] by blast
  then have "msr c s' + pweight p = msr c s" unfolding msr_def by simp
  then show ?thesis using p by blast
qed

lemma msr_cmd_ps:
  assumes "i < length (procs s)" "pexit (procs s ! i) = None" "code (procs s ! i) = Ext (Ps ls k)"
    and "do_cmd i (Ps ls k) s = Some s'"
  shows "msr c s' < msr c s"
proof (cases "k < length ls")
  case True
  show ?thesis
  proof (cases "write_fd i 1 (ls ! k) s")
    case (WOk s1)
    have w: "msr c s1 \<le> msr c s + 2" "procs s1 = procs s"
      using msr_write [OF WOk, of c] wweight_le [of "slot_get (fdt (procs s ! i)) 1"] by auto
    have a: "i < length (procs s1)" "pexit (procs s1 ! i) = None" using assms w(2) by simp_all
    have "s' = goto i (Ext (Ps ls (Suc k))) s1" using assms(4) True WOk by (simp add: do_cmd_def cmd_step_def)
    then show ?thesis using msr_goto [OF a, of c "Ext (Ps ls (Suc k))"] w assms(3) True by simp
  next
    case WEpipe
    then show ?thesis using assms msr_exit [OF assms(1,2), of c sigpipe] True by (simp add: do_cmd_def cmd_step_def)
  next
    case WEbadf
    then show ?thesis using assms msr_exit [OF assms(1,2), of c "Exited 1"] True by (simp add: do_cmd_def cmd_step_def)
  qed
next
  case False
  then show ?thesis using assms msr_exit [OF assms(1,2), of c "Exited 0"] by (simp add: do_cmd_def cmd_step_def)
qed

text \<open>\<open>grep\<close> reads only the grandchild's pipe and writes no line into it.\<close>

lemma msr_cmd_grep:
  assumes "i < length (procs s)" "pexit (procs s ! i) = None" "code (procs s ! i) = Ext (Grep t b)"
    and rd: "\<And>p. slot_get (fdt (procs s ! i)) 0 = Some (PipeR p) \<Longrightarrow> p = (2, 1)"
    and wr: "slot_get (fdt (procs s ! i)) 1 \<noteq> Some (PipeW (2, 1))"
    and "do_cmd i (Grep t b) s = Some s'"
  shows "msr c s' < msr c s"
proof (cases "read_fd i 0 s")
  case (Pair r s1)
  show ?thesis
  proof (cases r)
    case (RLine l)
    obtain p where p: "slot_get (fdt (procs s ! i)) 0 = Some (PipeR p)" "msr c s1 + pweight p = msr c s"
      "procs s1 = procs s"
      using msr_read [of i 0 s l s1 c] Pair RLine by auto
    have m1: "msr c s1 + 2 = msr c s" using p rd [OF p(1)] by simp
    have a: "i < length (procs s1)" "pexit (procs s1 ! i) = None" "code (procs s1 ! i) = Ext (Grep t b)"
      using assms p(3) by simp_all
    show ?thesis
    proof (cases "sublist t l")
      case True
      show ?thesis
      proof (cases "write_fd i 1 l s1")
        case (WOk s2)
        have "wweight (slot_get (fdt (procs s1 ! i)) 1) \<le> 1"
          using wr p(3) by (auto simp: wweight_def split: option.splits ofile.splits)
        then have w: "msr c s2 \<le> msr c s1 + 1" "procs s2 = procs s1" using msr_write [OF WOk, of c] by auto
        have a2: "i < length (procs s2)" "pexit (procs s2 ! i) = None" using a w(2) by simp_all
        have "s' = goto i (Ext (Grep t True)) s2"
          using assms(6) Pair RLine True WOk by (simp add: do_cmd_def cmd_step_def)
        then show ?thesis using msr_goto [OF a2, of c "Ext (Grep t True)"] w a(3) m1 by simp
      next
        case WEpipe
        then show ?thesis using assms(6) Pair RLine True msr_exit [OF a(1,2), of c sigpipe] m1
          by (simp add: do_cmd_def cmd_step_def)
      next
        case WEbadf
        then show ?thesis using assms(6) Pair RLine True msr_exit [OF a(1,2), of c "Exited 2"] m1
          by (simp add: do_cmd_def cmd_step_def)
      qed
    next
      case False
      then show ?thesis using assms(6) Pair RLine msr_goto [OF a(1,2), of c "Ext (Grep t b)"] a(3) m1
        by (simp add: do_cmd_def cmd_step_def)
    qed
  next
    case REof
    then have "s1 = s" using read_other [of i 0 s] Pair by auto
    then show ?thesis using assms(3,6) Pair REof msr_exit [OF assms(1,2), of c "Exited (if b then 0 else 1)"] by (simp add: do_cmd_def cmd_step_def)
  next
    case RBlock
    then show ?thesis using assms(6) Pair by (simp add: do_cmd_def cmd_step_def)
  next
    case RErr
    then have "s1 = s" using read_other [of i 0 s] Pair by auto
    then show ?thesis using assms(3,6) Pair RErr msr_exit [OF assms(1,2), of c "Exited 2"] by (simp add: do_cmd_def cmd_step_def)
  qed
qed

text \<open>\<open>wc\<close> reads only the child's pipe and writes into no pipe.\<close>

lemma msr_cmd_wc:
  assumes "i < length (procs s)" "pexit (procs s ! i) = None" "code (procs s ! i) = Ext (Wc n)"
    and rd: "\<And>p. slot_get (fdt (procs s ! i)) 0 = Some (PipeR p) \<Longrightarrow> p = (1, 0)"
    and wr: "wweight (slot_get (fdt (procs s ! i)) 1) = 0"
    and "do_cmd i (Wc n) s = Some s'"
  shows "msr c s' < msr c s"
proof (cases "read_fd i 0 s")
  case (Pair r s1)
  show ?thesis
  proof (cases r)
    case (RLine l)
    obtain p where p: "slot_get (fdt (procs s ! i)) 0 = Some (PipeR p)" "msr c s1 + pweight p = msr c s"
      "procs s1 = procs s"
      using msr_read [of i 0 s l s1 c] Pair RLine by auto
    have a: "i < length (procs s1)" "pexit (procs s1 ! i) = None" "code (procs s1 ! i) = Ext (Wc n)"
      using assms p(3) by simp_all
    have "msr c s1 + 1 = msr c s" using p rd [OF p(1)] by simp
    then show ?thesis using assms(6) Pair RLine msr_goto [OF a(1,2), of c "Ext (Wc (Suc n))"] a(3)
      by (simp add: do_cmd_def cmd_step_def)
  next
    case REof
    then have s1: "s1 = s" using read_other [of i 0 s] Pair by auto
    show ?thesis
    proof (cases "write_fd i 1 (dec n) s")
      case (WOk s2)
      have w: "msr c s2 \<le> msr c s" "procs s2 = procs s" using msr_write [OF WOk, of c] wr by auto
      have a2: "i < length (procs s2)" "pexit (procs s2 ! i) = None" using assms w(2) by simp_all
      have "s' = exit_proc i (Exited 0) s2" using assms(6) Pair REof s1 WOk by (simp add: do_cmd_def cmd_step_def)
      then show ?thesis using msr_exit [OF a2, of c "Exited 0"] w assms(3) by simp
    next
      case WEpipe
      then show ?thesis using assms(3,6) Pair REof s1 msr_exit [OF assms(1,2), of c sigpipe] by (simp add: do_cmd_def cmd_step_def)
    next
      case WEbadf
      then show ?thesis using assms(3,6) Pair REof s1 msr_exit [OF assms(1,2), of c "Exited 1"] by (simp add: do_cmd_def cmd_step_def)
    qed
  next
    case RBlock
    then show ?thesis using assms(6) Pair by (simp add: do_cmd_def cmd_step_def)
  next
    case RErr
    then have "s1 = s" using read_other [of i 0 s] Pair by auto
    then show ?thesis using assms(3,6) Pair RErr msr_exit [OF assms(1,2), of c "Exited 1"] by (simp add: do_cmd_def cmd_step_def)
  qed
qed

section \<open>Every statement lowers the measure\<close>

lemma dec_close:
  assumes "i < length (procs s)" "pexit (procs s ! i) = None" "do_close i k j l s = Some s'"
    and "rank (snap_bound c) l + 3 \<le> rank (snap_bound c) (code (procs s ! i))"
  shows "msr c s' < msr c s"
  using msr_close [OF assms(1-3), of c] assms(4) by simp

lemma dec_dup2:
  assumes "i < length (procs s)" "pexit (procs s ! i) = None" "do_dup2 i k j n l s = Some s'"
    and "rank (snap_bound c) l + 3 \<le> rank (snap_bound c) (code (procs s ! i))"
  shows "msr c s' < msr c s"
  using msr_dup2 [OF assms(1-3), of c] assms(4) by simp

lemma dec_pipe:
  assumes "i < length (procs s)" "pexit (procs s ! i) = None"
    and "rank (snap_bound c) l + 3 \<le> rank (snap_bound c) (code (procs s ! i))"
  shows "msr c (do_pipe c i k here l s) < msr c s"
  using msr_pipe [OF assms(1,2), of c k here l] assms(3) by simp

lemma dec_fork_perror:
  assumes "i < length (procs s)" "pexit (procs s ! i) = None"
    and "rank (snap_bound c) lp + rank (snap_bound c) lc + 3 \<le> rank (snap_bound c) (code (procs s ! i))"
  shows "msr c (do_fork c i here lc lp (perror_exit i msg) s) < msr c s"
  using msr_fork_perror [OF assms(1,2), of c here lc lp msg] assms(3) by simp

lemma dec_exec:
  assumes "i < length (procs s)" "pexit (procs s ! i) = None"
    and "rank (snap_bound c) (Ext (mk (upd_proc i (\<lambda>p. p\<lparr>cmdline := args\<rparr>) s))) + 3 \<le> rank (snap_bound c) (code (procs s ! i))"
  shows "msr c (do_exec c i here args msg mk s) < msr c s"
  using msr_exec [OF assms(1,2), of c here args msg mk] assms(3) by simp

lemma dec_goto:
  assumes "i < length (procs s)" "pexit (procs s ! i) = None"
    and "rank (snap_bound c) l < rank (snap_bound c) (code (procs s ! i))"
  shows "msr c (goto i l s) < msr c s"
  using msr_goto [OF assms(1,2), of c l] assms(3) by simp

lemma dec_say_goto:
  assumes "i < length (procs s)" "pexit (procs s ! i) = None"
    and "rank (snap_bound c) l + 3 \<le> rank (snap_bound c) (code (procs s ! i))"
  shows "msr c (say i n msg (goto i l) s) < msr c s"
  using msr_say(1) [OF assms(1,2), of c n msg l] assms(3) by simp

lemma dec_exit:
  assumes "i < length (procs s)" "pexit (procs s ! i) = None" "0 < rank (snap_bound c) (code (procs s ! i))"
  shows "msr c (exit_proc i st s) < msr c s"
  using msr_exit [OF assms(1,2), of c st] assms(3) by simp

lemma dec_say_exit:
  assumes "i < length (procs s)" "pexit (procs s ! i) = None" "3 \<le> rank (snap_bound c) (code (procs s ! i))"
  shows "msr c (say i n msg (exit_proc i st) s) < msr c s"
  using msr_say(2) [OF assms(1,2), of c n msg st] assms(3) by simp

lemma grep_tbl_facts:
  assumes "terms_only c" "fdt p = fst (loc_tbl c (Ext (Grep t b)))"
  shows "slot_get (fdt p) 0 = Some (PipeR q) \<Longrightarrow> q = (2, 1)"
    and "slot_get (fdt p) 1 \<noteq> Some (PipeW (2, 1))"
proof -
  show "slot_get (fdt p) 0 = Some (PipeR q) \<Longrightarrow> q = (2, 1)"
    using loc_pipe_ids [OF assms(1), of "Ext (Grep t b)" 0 "PipeR q" q] grep_no_read_A [OF assms(1), of t b 0] assms(2)
    by auto
  show "slot_get (fdt p) 1 \<noteq> Some (PipeW (2, 1))"
    using grep_no_write_B [OF assms(1), of t b 1] assms(2) by simp
qed

lemma wc_tbl_facts:
  assumes "terms_only c" "fdt p = fst (loc_tbl c (Ext (Wc n)))"
  shows "slot_get (fdt p) 0 = Some (PipeR q) \<Longrightarrow> q = (1, 0)"
    and "wweight (slot_get (fdt p) 1) = 0"
proof -
  show "slot_get (fdt p) 0 = Some (PipeR q) \<Longrightarrow> q = (1, 0)"
    using loc_pipe_ids [OF assms(1), of "Ext (Wc n)" 0 "PipeR q" q] child_no_pipeB(1) [OF assms(1), of "Ext (Wc n)" 0] assms(2)
    by auto
  have "slot_get (fdt p) 1 \<noteq> Some (PipeW q)" for q
    using loc_pipe_ids [OF assms(1), of "Ext (Wc n)" 1 "PipeW q" q] child_no_pipeB(2) [OF assms(1), of "Ext (Wc n)" 1]
      wc_no_write_A [OF assms(1), of n 1] assms(2)
    by auto
  then show "wweight (slot_get (fdt p) 1) = 0"
    by (auto simp: wweight_def split: option.splits ofile.splits)
qed

theorem msr_pstep:
  assumes r: "reach c s" and t: "terms_only c" and ps: "pstep c i s = Some s'"
  shows "msr c s' < msr c s"
proof -
  from ps have a: "i < length (procs s)" "pexit (procs s ! i) = None"
    and ex: "exec_loc c i (code (procs s ! i)) s = Some s'"
    by (auto simp: pstep_def split: if_splits)
  have I: "proc_inv c (procs s)" by (rule reach_inv [OF r])
  have tbl: "fdt (procs s ! i) = fst (loc_tbl c (code (procs s ! i)))"
    using live_at(2) [OF I a] by (metis fst_conv)
  have len: "length (procs s) \<le> 4" using I by (simp add: proc_inv_def)
  show ?thesis
  proof (cases "code (procs s ! i)")
    case L52
    then show ?thesis using ex dec_say_exit [OF a, of c] dec_goto [OF a, of c L58] by (auto split: if_splits)
  next
    case L58
    show ?thesis
    proof (cases "fails c L58")
      case True
      then show ?thesis using ex L58 dec_say_goto [OF a, of c L118 2 "''fork error''"] by (simp add: do_fork_def)
    next
      case False
      then show ?thesis using ex L58 msr_fork [OF a, of c L114 L62] by (simp add: do_fork_def)
    qed
  next
    case L114
    then show ?thesis using ex dec_goto [OF a, of c L115] by (simp add: do_wait_def split: if_splits)
  next
    case L115
    then show ?thesis using ex dec_say_goto [OF a, of c L118 1 "''commands completed''"] by simp
  next
    case L118
    then show ?thesis using ex dec_exit [OF a, of c "exit_status 0"] by simp
  next
    case L62
    then show ?thesis using ex dec_pipe [OF a, of c L67 0 L62] by simp
  next
    case L67
    then show ?thesis using ex dec_fork_perror [OF a, of c L105 L72 L67 "''fork error''"] by simp
  next
    case L72
    then show ?thesis using ex dec_pipe [OF a, of c L77 1 L72] by simp
  next
    case L77
    then show ?thesis using ex dec_fork_perror [OF a, of c L93 L82 L77 "''fork error''"] by simp
  next
    case L105
    then show ?thesis using ex by (intro dec_close [OF a, where k = 0 and j = 1 and l = L106]) simp_all
  next
    case L106
    then show ?thesis using ex by (intro dec_dup2 [OF a, where k = 0 and j = 0 and n = 0 and l = L107]) simp_all
  next
    case L107
    then show ?thesis using ex by (intro dec_close [OF a, where k = 0 and j = 0 and l = L108]) simp_all
  next
    case L108
    then show ?thesis using ex dec_exec [OF a, of c "\<lambda>_. Wc 0" "[''wc'', ''-l'']" L108 "''execlp wc failed''"] by simp
  next
    case L93
    then show ?thesis using ex by (intro dec_close [OF a, where k = 1 and j = 1 and l = L94]) simp_all
  next
    case L94
    then show ?thesis using ex by (intro dec_dup2 [OF a, where k = 1 and j = 0 and n = 0 and l = L95]) simp_all
  next
    case L95
    then show ?thesis using ex by (intro dec_close [OF a, where k = 1 and j = 0 and l = L96]) simp_all
  next
    case L96
    then show ?thesis using ex by (intro dec_close [OF a, where k = 0 and j = 0 and l = L97]) simp_all
  next
    case L97
    then show ?thesis using ex by (intro dec_dup2 [OF a, where k = 0 and j = 1 and n = 1 and l = L98]) simp_all
  next
    case L98
    then show ?thesis using ex by (intro dec_close [OF a, where k = 0 and j = 1 and l = L99]) simp_all
  next
    case L99
    then show ?thesis using ex dec_exec [OF a, of c "\<lambda>_. Grep (argv c ! 1) False" "[''grep'', argv c ! 1]" L99 "''execlp grep failed''"] by simp
  next
    case L82
    then show ?thesis using ex by (intro dec_close [OF a, where k = 0 and j = 0 and l = L83]) simp_all
  next
    case L83
    then show ?thesis using ex by (intro dec_close [OF a, where k = 0 and j = 1 and l = L84]) simp_all
  next
    case L84
    then show ?thesis using ex by (intro dec_close [OF a, where k = 1 and j = 0 and l = L85]) simp_all
  next
    case L85
    then show ?thesis using ex by (intro dec_dup2 [OF a, where k = 1 and j = 1 and n = 1 and l = L86]) simp_all
  next
    case L86
    then show ?thesis using ex by (intro dec_close [OF a, where k = 1 and j = 1 and l = L88]) simp_all
  next
    case L88
    let ?s1 = "upd_proc i (\<lambda>p. p\<lparr>cmdline := [''ps'', ''aux'']\<rparr>) s"
    have "length (ps_listing (others c) ?s1) \<le> snap_bound c"
      by (rule ps_listing_bound) (simp add: upd_proc_def len)
    then show ?thesis using ex L88 dec_exec [OF a, of c "\<lambda>s. Ps (ps_listing (others c) s) 0" "[''ps'', ''aux'']" L88 "''execlp ps failed''"]
      by simp
  next
    case (Ext m)
    then have ex': "do_cmd i m s = Some s'" using ex by simp
    show ?thesis
    proof (cases m)
      case (Ps ls k)
      then show ?thesis using msr_cmd_ps [OF a _ ex' [unfolded Ps]] Ext by simp
    next
      case (Grep t b)
      have f: "fdt (procs s ! i) = fst (loc_tbl c (Ext (Grep t b)))" using tbl Ext Grep by simp
      show ?thesis
        by (rule msr_cmd_grep [OF a _ grep_tbl_facts(1) [OF t f] grep_tbl_facts(2) [OF t f]])
          (use Ext Grep ex' in simp_all)
    next
      case (Wc n)
      have f: "fdt (procs s ! i) = fst (loc_tbl c (Ext (Wc n)))" using tbl Ext Wc by simp
      show ?thesis
        by (rule msr_cmd_wc [OF a _ wc_tbl_facts(1) [OF t f] wc_tbl_facts(2) [OF t f]])
          (use Ext Wc ex' in simp_all)
    qed
  qed
qed

section \<open>Termination and completion\<close>

lemma step_wf:
  assumes "terms_only c"
  shows "wf {(s', s). reach c s \<and> step c s s'}"
proof (rule wf_subset [OF wf_measure [of "msr c"]])
  show "{(s', s). reach c s \<and> step c s s'} \<subseteq> measure (msr c)"
  proof clarify
    fix s s' assume "reach c s" "step c s s'"
    then show "(s', s) \<in> measure (msr c)"
      using msr_pstep [OF _ assms] by (auto elim: step_elim)
  qed
qed

text \<open>
  C5. Every run can be completed, whatever fails, provided the inherited
  descriptors are no pipe ends (\<open>terms_only\<close>; an invocation whose standard
  output is a pipe to another program, such as \<open>./processes t | cat\<close>, is
  outside the model, whose pipes are only the two that \<open>main\<close> creates). From
  every reachable state some interleaving reaches a state in which no process
  can step, and in that state every process has exited.
\<close>

theorem run_completes:
  assumes "reach c s" "terms_only c"
  shows "\<exists>s'. (step c)\<^sup>*\<^sup>* s s' \<and> (\<forall>s''. \<not> step c s' s'') \<and> (\<forall>i < length (procs s'). pexit (procs s' ! i) \<noteq> None)"
  using assms(1)
proof (induction s rule: wf_induct [OF step_wf [OF assms(2)]])
  case (1 s)
  show ?case
  proof (cases "\<exists>s1. step c s s1")
    case True
    then obtain s1 where s1: "step c s s1" by blast
    have "reach c s1" using "1.prems" s1 by (rule reach.extend)
    then obtain s' where "(step c)\<^sup>*\<^sup>* s1 s'" "\<forall>s''. \<not> step c s' s''"
        "\<forall>i < length (procs s'). pexit (procs s' ! i) \<noteq> None"
      using "1.IH" "1.prems" s1 by blast
    then show ?thesis using s1 by (meson converse_rtranclp_into_rtranclp)
  next
    case False
    have "\<forall>i < length (procs s). pexit (procs s ! i) \<noteq> None"
    proof (intro allI impI notI)
      fix i assume "i < length (procs s)" "pexit (procs s ! i) = None"
      then show False using live_can_step [OF "1.prems" assms(2)] False by blast
    qed
    then show ?thesis using False by blast
  qed
qed

end
