(* ===== verification/ErrorPaths.thy ===== *)
theory ErrorPaths
  imports Scenarios
begin

text \<open>
  The error paths of the supervisor, where only one process ever exists:
  the usage error (lines 52 to 55) and a failing first \<open>fork\<close> (lines 58 and 59,
  after which control falls through to \<open>return 0\<close> at line 118). Every reachable
  state is one of a short list, computed by the kernel's simplifier.
\<close>

definition usage_cfg :: cfg where
  "usage_cfg =
     \<lparr>argv = [''./processes''], init_fdt = [Some (Term 0), Some (Term 1), Some (Term 2)],
      others = [], fails = (\<lambda>_. False)\<rparr>"

definition forkfail_cfg :: cfg where
  "forkfail_cfg =
     \<lparr>argv = [''./processes'', ''bash''], init_fdt = [Some (Term 0), Some (Term 1), Some (Term 2)],
      others = [], fails = (\<lambda>l. l = L58)\<rparr>"

definition usage_final :: sys where
  "usage_final = the (run usage_cfg [0] (init_sys usage_cfg))"

definition forkfail_final :: sys where
  "forkfail_final = the (run forkfail_cfg [0, 0, 0] (init_sys forkfail_cfg))"

section \<open>Runs of a single process\<close>

lemma single_step:
  "length (procs s) = 1 \<Longrightarrow> step c s s' \<Longrightarrow> pstep c 0 s = Some s'"
  by (erule step_elim) (auto simp: pstep_def split: if_splits)

text \<open>A property of the states of a run in which the supervisor never forks.\<close>

lemma single_proc_reach:
  assumes "reach c s" "P (init_sys c)"
    and "\<And>s s'. P s \<Longrightarrow> length (procs s) = 1 \<and> (pstep c 0 s = Some s' \<longrightarrow> P s')"
  shows "P s"
  using assms(1)
proof (induction rule: reach.induct)
  case start
  then show ?case by (rule assms(2))
next
  case (extend s s')
  then show ?case using assms(3) single_step by blast
qed

lemma usage_reach:
  assumes "length (argv c) \<noteq> 2" "slot_get (init_fdt c) 2 = Some (Term k)" "reach c s"
  shows "s = init_sys c \<or> s = exit_proc 0 (Exited 255) ((init_sys c)\<lparr>out := [(k, ''Usage: processes command'')]\<rparr>)"
  by (rule single_proc_reach [OF assms(3)])
     (use assms(1,2) in \<open>auto simp: eval_simps exit_status_minus_one\<close>)

lemma forkfail_reach:
  assumes "length (argv c) = 2" "fails c L58" "slot_get (init_fdt c) 2 = Some (Term k)" "reach c s"
  shows "s = init_sys c \<or> s = goto 0 L58 (init_sys c)
    \<or> s = goto 0 L118 ((goto 0 L58 (init_sys c))\<lparr>out := [(k, ''fork error'')]\<rparr>)
    \<or> s = exit_proc 0 (Exited 0) (goto 0 L118 ((goto 0 L58 (init_sys c))\<lparr>out := [(k, ''fork error'')]\<rparr>))"
  by (rule single_proc_reach [OF assms(4)])
     (use assms(1-3) in \<open>auto simp: eval_simps exit_status_zero\<close>)


lemma usage_final_run: "run usage_cfg [0] (init_sys usage_cfg) = Some usage_final"
proof -
  have "run usage_cfg [0] (init_sys usage_cfg) \<noteq> None" by (simp add: usage_cfg_def eval_simps)
  then show ?thesis by (auto simp: usage_final_def)
qed

lemma forkfail_final_run: "run forkfail_cfg [0, 0, 0] (init_sys forkfail_cfg) = Some forkfail_final"
proof -
  have "run forkfail_cfg [0, 0, 0] (init_sys forkfail_cfg) \<noteq> None" by (simp add: forkfail_cfg_def eval_simps)
  then show ?thesis by (auto simp: forkfail_final_def)
qed

lemma forkfail_final_procs: "pexit (procs forkfail_final ! 0) = Some (Exited 0)"
  by (simp add: forkfail_final_def forkfail_cfg_def eval_simps exit_status_zero)

section \<open>The usage error\<close>

text \<open>
  C6. With an argument count other than two the supervisor forks nothing: every
  reachable state has one process and empty pipes, and is either the initial
  state or the one in which the usage line has been written to the error stream
  and the process has exited with \<open>exit(-1)\<close>, seen by the parent as 255.
\<close>

theorem usage_error:
  assumes "length (argv c) \<noteq> 2" "slot_get (init_fdt c) 2 = Some (Term k)" "reach c s"
  shows "length (procs s) = 1 \<and> bufs s = (\<lambda>_. [])
    \<and> (s = init_sys c \<or> pexit (procs s ! 0) = Some (Exited 255) \<and> out s = [(k, ''Usage: processes command'')])"
  using usage_reach [OF assms] by (auto simp: init_sys_def exit_proc_def upd_proc_def)

theorem usage_error_witness:
  "length (argv usage_cfg) \<noteq> 2 \<and> slot_get (init_fdt usage_cfg) 2 = Some (Term 2) \<and> reach usage_cfg usage_final
   \<and> usage_final \<noteq> init_sys usage_cfg \<and> pexit (procs usage_final ! 0) = Some (Exited 255)"
proof -
  have a: "length (argv usage_cfg) \<noteq> 2" "slot_get (init_fdt usage_cfg) 2 = Some (Term 2)"
    by (simp_all add: usage_cfg_def slot_get_def)
  have r: "reach usage_cfg usage_final" by (rule run_reach [OF usage_final_run reach.start])
  have d: "usage_final \<noteq> init_sys usage_cfg"
    by (simp add: usage_final_def usage_cfg_def eval_simps)
  show ?thesis using usage_error [OF a r] a r d by simp
qed

section \<open>A failing first fork\<close>

text \<open>
  C7. When the supervisor's \<open>fork\<close> fails it reports "fork error" on the error
  stream and then returns 0 (line 118), forking nothing and never printing
  "commands completed": the failure is reported as success, although the spec
  (section 3, step 2) has a spawn failure terminate with a non-zero status.
\<close>

theorem supervisor_fork_failure:
  assumes "length (argv c) = 2" "fails c L58" "slot_get (init_fdt c) 2 = Some (Term k)" "reach c s"
    and "pexit (procs s ! 0) \<noteq> None"
  shows "length (procs s) = 1 \<and> pexit (procs s ! 0) = Some (Exited 0) \<and> out s = [(k, ''fork error'')]"
  using forkfail_reach [OF assms(1-4)] assms(5) by (auto simp: init_sys_def exit_proc_def upd_proc_def goto_def)

theorem supervisor_fork_failure_witness:
  "length (argv forkfail_cfg) = 2 \<and> fails forkfail_cfg L58 \<and> slot_get (init_fdt forkfail_cfg) 2 = Some (Term 2)
   \<and> reach forkfail_cfg forkfail_final \<and> pexit (procs forkfail_final ! 0) = Some (Exited 0)
   \<and> out forkfail_final = [(2, ''fork error'')]"
proof -
  have a: "length (argv forkfail_cfg) = 2" "fails forkfail_cfg L58" "slot_get (init_fdt forkfail_cfg) 2 = Some (Term 2)"
    by (simp_all add: forkfail_cfg_def slot_get_def)
  have r: "reach forkfail_cfg forkfail_final" by (rule run_reach [OF forkfail_final_run reach.start])
  have e: "pexit (procs forkfail_final ! 0) \<noteq> None" using forkfail_final_procs by simp
  show ?thesis using supervisor_fork_failure [OF a r e] a r by simp
qed

end
