(* ===== verification/Dataflow.thy ===== *)
theory Dataflow
  imports Liveness
begin

text \<open>
  What a complete run prints. In a fault-free configuration (\<open>fault_free\<close>: two
  arguments, no failing system call, descriptors 0 and 1 open on files that are
  not pipe ends) the invariant \<open>df\<close> holds in every reachable state. It relates
  the lines \<open>ps\<close> has written (\<open>psw\<close>, a prefix of its snapshot), the lines waiting
  in the grandchild's pipe (a suffix of \<open>psw\<close>), the lines \<open>grep\<close> has consumed
  (\<open>consumed\<close>), the lines waiting in the child's pipe and \<open>wc\<close>'s count (\<open>wcn\<close>):
  the count plus the waiting lines is the number of consumed lines that contain
  the term. It also records the order of termination (the child ends only after
  the grandchild, the grandchild only after the great-grandchild, which ends
  only when its listing is written out), that the supervisor passes its
  \<open>wait\<close> only after the child has ended, what the terminal has received, and
  the shape of the snapshot (\<open>listing_ok\<close>: the rest of the system, then the
  supervisor, the child, the grandchild and \<open>ps aux\<close> itself). Each statement of
  \<open>main\<close> and each step of a command keeps \<open>df\<close> (\<open>df_pstep\<close>), with the pipe
  ends each stage holds at each point (\<open>holds_WA_2\<close> and the others) excluding
  every early end of file, \<open>SIGPIPE\<close> and \<open>EBADF\<close>.
\<close>

section \<open>The observed state\<close>

definition fault_free :: "cfg \<Rightarrow> bool" where
  "fault_free c \<longleftrightarrow> length (argv c) = 2 \<and> (\<forall>l. \<not> fails c l) \<and> std_open c \<and> terms_only c"

definition term1 :: "cfg \<Rightarrow> nat" where
  "term1 c = (case slot_get (init_fdt c) 1 of Some (Term k) \<Rightarrow> k | _ \<Rightarrow> 0)"

fun ext_of :: "loc \<Rightarrow> cmd option" where
  "ext_of (Ext m) = Some m"
| "ext_of _ = None"

definition dead :: "sys \<Rightarrow> pid \<Rightarrow> bool" where
  "dead s i \<longleftrightarrow> i < length (procs s) \<and> pexit (procs s ! i) \<noteq> None"

definition psw :: "sys \<Rightarrow> string list" where
  "psw s = (if 3 < length (procs s)
            then (case ext_of (code (procs s ! 3)) of Some (Ps ls k) \<Rightarrow> take k ls | _ \<Rightarrow> []) else [])"

definition wcn :: "sys \<Rightarrow> nat" where
  "wcn s = (if 1 < length (procs s)
            then (case ext_of (code (procs s ! 1)) of Some (Wc n) \<Rightarrow> n | _ \<Rightarrow> 0) else 0)"

definition consumed :: "sys \<Rightarrow> string list" where
  "consumed s = take (length (psw s) - length (bufs s (2, 1))) (psw s)"

definition listing_ok :: "cfg \<Rightarrow> string list \<Rightarrow> bool" where
  "listing_ok c ls \<longleftrightarrow>
     (let a = unwords (argv c); w = unwords [''wc'', ''-l'']; g = unwords [''grep'', argv c ! 1];
          p = unwords [''ps'', ''aux'']
      in take (length (others c)) ls = others c
         \<and> drop (length (others c)) ls \<in> set [[a, a, a, p], [a, a, g, p], [a, w, a, p], [a, w, g, p]])"

definition ps_state_ok :: "cfg \<Rightarrow> sys \<Rightarrow> bool" where
  "ps_state_ok c s \<longleftrightarrow> (3 < length (procs s) \<longrightarrow>
     (case ext_of (code (procs s ! 3)) of Some (Ps ls k) \<Rightarrow> k \<le> length ls \<and> listing_ok c ls | _ \<Rightarrow> True))"

definition ps_done :: "sys \<Rightarrow> bool" where
  "ps_done s \<longleftrightarrow> (case ext_of (code (procs s ! 3)) of Some (Ps ls k) \<Rightarrow> k = length ls | _ \<Rightarrow> False)"

definition forked :: "sys \<Rightarrow> bool" where
  "forked s \<longleftrightarrow> (\<forall>i < length (procs s). i < 3 \<longrightarrow> \<not> prefork (code (procs s ! i)) \<longrightarrow> Suc i < length (procs s))"

definition df :: "cfg \<Rightarrow> sys \<Rightarrow> bool" where
  "df c s \<longleftrightarrow>
     suffix (bufs s (2, 1)) (psw s)
   \<and> wcn s + length (bufs s (1, 0)) = length (filter (sublist (argv c ! 1)) (consumed s))
   \<and> out s = (if dead s 1 then [(term1 c, dec (wcn s))] else [])
             @ (if code (procs s ! 0) = L118 then [(term1 c, ''commands completed'')] else [])
   \<and> (dead s 1 \<longrightarrow> dead s 2 \<and> bufs s (1, 0) = [])
   \<and> (dead s 2 \<longrightarrow> dead s 3 \<and> bufs s (2, 1) = [])
   \<and> (dead s 3 \<longrightarrow> ps_done s)
   \<and> ((code (procs s ! 0) = L115 \<or> code (procs s ! 0) = L118) \<longrightarrow> dead s 1)
   \<and> (pexit (procs s ! 0) \<noteq> None \<longrightarrow> code (procs s ! 0) = L118)
   \<and> forked s
   \<and> ps_state_ok c s"

definition vclass :: "loc \<Rightarrow> bool \<times> bool \<times> bool \<times> cmd option" where
  "vclass l = (prefork l, l = L115, l = L118, ext_of l)"

definition moves :: "pid \<Rightarrow> loc \<Rightarrow> sys \<Rightarrow> sys \<Rightarrow> bool" where
  "moves i l s s' \<longleftrightarrow> (\<exists>f. s' = upd_proc i f s \<and> (\<forall>p. pexit (f p) = pexit p \<and> code (f p) = l))"

section \<open>Facts about the configuration and the tables\<close>

lemma holds_at:
  "i < length (procs s) \<Longrightarrow> slot_get (fdt (procs s ! i)) n = Some x \<Longrightarrow> holds s x"
  unfolding holds_def by (rule bexI [of _ "procs s ! i"]) (simp_all add: slot_in_set)

lemma term1_slot:
  assumes "std_open c" "terms_only c"
  shows "slot_get (init_fdt c) 1 = Some (Term (term1 c))"
proof -
  obtain x where x: "slot_get (init_fdt c) 1 = Some x" using assms(1) by (auto simp: std_open_def)
  show ?thesis
  proof (cases x)
    case (Term k)
    then show ?thesis using x by (simp add: term1_def)
  next
    case (PipeR p)
    then show ?thesis using x terms_only_D(1) [OF assms(2), of 1 p] by simp
  next
    case (PipeW p)
    then show ?thesis using x terms_only_D(2) [OF assms(2), of 1 p] by simp
  qed
qed

section \<open>Which pipe ends each stage holds at each point\<close>

lemma tbl_WA:
  assumes "std_open c"
  shows "slot_get (fst (loc_tbl c L72)) (wA c) = Some (PipeW (1, 0))"
    "slot_get (fst (loc_tbl c L77)) (wA c) = Some (PipeW (1, 0))"
    "slot_get (fst (loc_tbl c L93)) (wA c) = Some (PipeW (1, 0))"
    "slot_get (fst (loc_tbl c L94)) (wA c) = Some (PipeW (1, 0))"
    "slot_get (fst (loc_tbl c L95)) (wA c) = Some (PipeW (1, 0))"
    "slot_get (fst (loc_tbl c L96)) (wA c) = Some (PipeW (1, 0))"
    "slot_get (fst (loc_tbl c L97)) (wA c) = Some (PipeW (1, 0))"
    "slot_get (fst (loc_tbl c L98)) 1 = Some (PipeW (1, 0))"
    "slot_get (fst (loc_tbl c L99)) 1 = Some (PipeW (1, 0))"
    "slot_get (fst (loc_tbl c (Ext (Grep t b)))) 1 = Some (PipeW (1, 0))"
  using pipe_fds [of c] above_std [OF assms]
  by (simp_all add: loc_tbl_def slot_simps slot_tA slot_tB)

lemma tbl_RA:
  assumes "std_open c"
  shows "slot_get (fst (loc_tbl c L67)) (rA c) = Some (PipeR (1, 0))"
    "slot_get (fst (loc_tbl c L105)) (rA c) = Some (PipeR (1, 0))"
    "slot_get (fst (loc_tbl c L106)) (rA c) = Some (PipeR (1, 0))"
    "slot_get (fst (loc_tbl c L107)) 0 = Some (PipeR (1, 0))"
    "slot_get (fst (loc_tbl c L108)) 0 = Some (PipeR (1, 0))"
    "slot_get (fst (loc_tbl c (Ext (Wc n)))) 0 = Some (PipeR (1, 0))"
  using pipe_fds [of c] above_std [OF assms]
  by (simp_all add: loc_tbl_def slot_simps slot_tA slot_tB)

lemma tbl_RB:
  assumes "std_open c"
  shows "slot_get (fst (loc_tbl c L77)) (rB c) = Some (PipeR (2, 1))"
    "slot_get (fst (loc_tbl c L93)) (rB c) = Some (PipeR (2, 1))"
    "slot_get (fst (loc_tbl c L94)) (rB c) = Some (PipeR (2, 1))"
    "slot_get (fst (loc_tbl c L95)) 0 = Some (PipeR (2, 1))"
    "slot_get (fst (loc_tbl c L96)) 0 = Some (PipeR (2, 1))"
    "slot_get (fst (loc_tbl c L97)) 0 = Some (PipeR (2, 1))"
    "slot_get (fst (loc_tbl c L98)) 0 = Some (PipeR (2, 1))"
    "slot_get (fst (loc_tbl c L99)) 0 = Some (PipeR (2, 1))"
    "slot_get (fst (loc_tbl c (Ext (Grep t b)))) 0 = Some (PipeR (2, 1))"
  using pipe_fds [of c] above_std [OF assms]
  by (simp_all add: loc_tbl_def slot_simps slot_tA slot_tB)

lemma tbl_WB:
  assumes "std_open c"
  shows "slot_get (fst (loc_tbl c L82)) (wB c) = Some (PipeW (2, 1))"
    "slot_get (fst (loc_tbl c L83)) (wB c) = Some (PipeW (2, 1))"
    "slot_get (fst (loc_tbl c L84)) (wB c) = Some (PipeW (2, 1))"
    "slot_get (fst (loc_tbl c L85)) (wB c) = Some (PipeW (2, 1))"
    "slot_get (fst (loc_tbl c L86)) 1 = Some (PipeW (2, 1))"
    "slot_get (fst (loc_tbl c L88)) 1 = Some (PipeW (2, 1))"
    "slot_get (fst (loc_tbl c (Ext (Ps ls k)))) 1 = Some (PipeW (2, 1))"
  using pipe_fds [of c] above_std [OF assms]
  by (simp_all add: loc_tbl_def slot_simps slot_tA slot_tB)

lemma vals_of: "slot_get t n = Some x \<Longrightarrow> x \<in> vals (slot_get t)"
  by (auto simp: vals_def)

lemma holds_vals:
  "i < length (procs s) \<Longrightarrow> x \<in> vals (slot_get (fdt (procs s ! i))) \<Longrightarrow> holds s x"
proof -
  assume i: "i < length (procs s)" and x: "x \<in> vals (slot_get (fdt (procs s ! i)))"
  then obtain n where "slot_get (fdt (procs s ! i)) n = Some x" by (auto simp: vals_def)
  then show "holds s x" by (rule holds_at [OF i])
qed

text \<open>The pipe ends each stage holds at every point after their creation.\<close>

lemma holds_WA_2:
  assumes "std_open c" "role l = 2"
  shows "PipeW (1, 0) \<in> vals (slot_get (fst (loc_tbl c l)))"
proof -
  note f = tbl_WA [OF assms(1), THEN vals_of]
  show ?thesis using assms(2-) f by (cases l rule: fd_path.cases) simp_all
qed

lemma holds_RB_2:
  assumes "std_open c" "role l = 2" "l \<noteq> L72"
  shows "PipeR (2, 1) \<in> vals (slot_get (fst (loc_tbl c l)))"
proof -
  note f = tbl_RB [OF assms(1), THEN vals_of]
  show ?thesis using assms(2-) f by (cases l rule: fd_path.cases) simp_all
qed

lemma holds_WB_3:
  assumes "std_open c" "role l = 3"
  shows "PipeW (2, 1) \<in> vals (slot_get (fst (loc_tbl c l)))"
proof -
  note f = tbl_WB [OF assms(1), THEN vals_of]
  show ?thesis using assms(2-) f by (cases l rule: fd_path.cases) simp_all
qed

lemma holds_RA_1:
  assumes "std_open c" "role l = 1" "l \<noteq> L62"
  shows "PipeR (1, 0) \<in> vals (slot_get (fst (loc_tbl c l)))"
proof -
  note f = tbl_RA [OF assms(1), THEN vals_of]
  show ?thesis using assms(2-) f by (cases l rule: fd_path.cases) simp_all
qed

section \<open>Statements that change no observed part of the state\<close>

lemma df_upd_same:
  assumes "df c s" "i < length (procs s)" "pexit (f (procs s ! i)) = pexit (procs s ! i)"
    and "vclass (code (f (procs s ! i))) = vclass (code (procs s ! i))"
  shows "df c (upd_proc i f s)"
proof -
  let ?s = "upd_proc i f s"
  have len: "length (procs ?s) = length (procs s)" by (simp add: upd_proc_def)
  have px: "pexit (procs ?s ! j) = pexit (procs s ! j)" for j
    using assms(2,3) by (cases "j = i") (simp_all add: upd_proc_def)
  have cl: "prefork (code (procs ?s ! j)) = prefork (code (procs s ! j))"
      "(code (procs ?s ! j) = L115) = (code (procs s ! j) = L115)"
      "(code (procs ?s ! j) = L118) = (code (procs s ! j) = L118)"
      "ext_of (code (procs ?s ! j)) = ext_of (code (procs s ! j))" for j
    using assms(2,4) by (cases "j = i"; simp add: upd_proc_def vclass_def)+
  have eq: "dead ?s = dead s" "psw ?s = psw s" "wcn ?s = wcn s" "bufs ?s = bufs s" "out ?s = out s"
      "ps_done ?s = ps_done s" "forked ?s = forked s" "ps_state_ok c ?s = ps_state_ok c s"
    by (simp_all add: fun_eq_iff dead_def psw_def wcn_def ps_done_def forked_def ps_state_ok_def
        len px cl) (simp_all add: upd_proc_def)
  have "consumed ?s = consumed s" by (simp add: consumed_def eq)
  then show ?thesis using assms(1) eq cl(2,3) [of 0] px [of 0] by (simp add: df_def)
qed

lemma df_fork:
  assumes "df c s" "length (procs s) = Suc i" "pexit (procs s ! i) = None" "i < 3"
    and "ext_of (code (procs s ! i)) = None" "code (procs s ! i) \<noteq> L115" "code (procs s ! i) \<noteq> L118"
    and "Suc i < 3 \<Longrightarrow> prefork lc" "ext_of lc = None"
    and "\<not> prefork lp" "ext_of lp = None" "lp \<noteq> L115" "lp \<noteq> L118"
  shows "df c (goto i lp (fork_proc i lc s))"
proof -
  let ?s = "goto i lp (fork_proc i lc s)"
  have len: "length (procs ?s) = Suc (Suc i)" using assms(2) by (simp add: goto_def upd_proc_def fork_proc_def)
  have at: "procs ?s ! j = (if j = i then (procs s ! i)\<lparr>code := lp\<rparr>
                             else if j = Suc i then (procs s ! i)\<lparr>code := lc, ppid := Some i\<rparr> else procs s ! j)"
    if "j < Suc (Suc i)" for j
    using that assms(2) by (auto simp: goto_def upd_proc_def fork_proc_def nth_append nth_list_update less_Suc_eq)
  have dead: "dead ?s = dead s"
  proof
    fix j show "dead ?s j = dead s j"
      using at [of j] len assms(2,3) by (cases "j < Suc (Suc i)") (auto simp: dead_def less_Suc_eq)
  qed
  have psw: "psw ?s = psw s" "psw s = []"
    using at [of 3] len assms(2,4,9) by (auto simp: psw_def)
  have wcn: "wcn ?s = wcn s"
    using at [of 1] len assms(2,4,5,9,11) by (cases "i = 1") (auto simp: wcn_def)
  have c0: "(code (procs ?s ! 0) = L115) = (code (procs s ! 0) = L115)"
    "(code (procs ?s ! 0) = L118) = (code (procs s ! 0) = L118)"
    "pexit (procs ?s ! 0) = pexit (procs s ! 0)"
    using at [of 0] assms(3,6,7,12,13) by (cases i; simp)+
  have d3: "\<not> dead s 3" using assms(2,4) by (simp add: dead_def)
  have d1: "\<not> dead s 1"
  proof
    assume "dead s 1"
    moreover have "\<not> dead s 2" using assms(2,3,4) by (auto simp: dead_def less_Suc_eq)
    ultimately show False using assms(1-3) by (cases "i = 1") (auto simp: df_def dead_def)
  qed
  have p0: "pexit (procs s ! 0) = None"
    using assms(1) d1 by (auto simp: df_def)
  have fk: "forked ?s"
    unfolding forked_def
  proof (intro allI impI)
    fix j assume j: "j < length (procs ?s)" "j < 3" "\<not> prefork (code (procs ?s ! j))"
    show "Suc j < length (procs ?s)"
      using at [of j] j len assms(8,10) by (auto split: if_splits)
  qed
  have ps: "ps_state_ok c ?s"
    using at [of 3] len assms(4,9) by (auto simp: ps_state_ok_def)
  have "bufs ?s = bufs s" "out ?s = out s" by (simp_all add: goto_def upd_proc_def fork_proc_def)
  moreover have "consumed ?s = consumed s" by (simp add: consumed_def psw calculation)
  ultimately show ?thesis using assms(1) dead psw wcn c0 d1 d3 p0 fk ps by (simp add: df_def)
qed

lemma df_upd:
  assumes "df c s" "i < length (procs s)" "pexit (procs s ! i) = None" "pexit (f (procs s ! i)) = None"
    and "prefork (code (f (procs s ! i))) = prefork (code (procs s ! i))"
    and "(code (f (procs s ! i)) = L115) = (code (procs s ! i) = L115)"
    and "(code (f (procs s ! i)) = L118) = (code (procs s ! i) = L118)"
    and "wcn (upd_proc i f s) = wcn s" "psw (upd_proc i f s) = psw s" "ps_state_ok c (upd_proc i f s)"
  shows "df c (upd_proc i f s)"
proof -
  let ?s = "upd_proc i f s"
  have len: "length (procs ?s) = length (procs s)" by (simp add: upd_proc_def)
  have px: "pexit (procs ?s ! j) = pexit (procs s ! j)" for j
    using assms(2-4) by (cases "j = i") (simp_all add: upd_proc_def)
  have cl: "prefork (code (procs ?s ! j)) = prefork (code (procs s ! j))"
      "(code (procs ?s ! j) = L115) = (code (procs s ! j) = L115)"
      "(code (procs ?s ! j) = L118) = (code (procs s ! j) = L118)" for j
    using assms(2,5-7) by (cases "j = i"; simp add: upd_proc_def)+
  have eq: "dead ?s = dead s" "bufs ?s = bufs s" "out ?s = out s" "forked ?s = forked s"
    by (simp_all add: fun_eq_iff dead_def forked_def len px cl) (simp_all add: upd_proc_def)
  have d3: "ps_done ?s" if "dead s 3" "ps_done s"
  proof -
    have "i \<noteq> 3" using that(1) assms(3) by (auto simp: dead_def)
    then show ?thesis using that(2) by (simp add: ps_done_def upd_proc_def)
  qed
  have "consumed ?s = consumed s" by (simp add: consumed_def eq assms(9))
  then show ?thesis using assms(1,8-10) eq d3 cl(2,3) [of 0] px [of 0] by (simp add: df_def)
qed

lemma goto_upd_proc:
  "i < length (procs s) \<Longrightarrow> goto i l (upd_proc i f s) = upd_proc i (\<lambda>p. (f p)\<lparr>code := l\<rparr>) s"
  by (simp add: goto_def upd_proc_def)

text \<open>The facts of the process-table invariant the dataflow proof uses.\<close>

lemma inv_facts:
  assumes "reach c s"
  shows "length (procs s) \<le> 4" "procs s \<noteq> []"
    and "i < length (procs s) \<Longrightarrow> ppid (procs s ! i) = (if i = 0 then None else Some (i - 1))"
    and "i < length (procs s) \<Longrightarrow> pexit (procs s ! i) = None \<Longrightarrow> role (code (procs s ! i)) = i"
    and "i < length (procs s) \<Longrightarrow> pexit (procs s ! i) = None \<Longrightarrow> cmdline (procs s ! i) = exp_cmdline c (code (procs s ! i))"
    and "i < length (procs s) \<Longrightarrow> pexit (procs s ! i) = None \<Longrightarrow> code_ok c (code (procs s ! i))"
    and "i < length (procs s) \<Longrightarrow> pexit (procs s ! i) = None \<Longrightarrow> prefork (code (procs s ! i)) \<Longrightarrow> length (procs s) = Suc i"
  using reach_inv [OF assms] by (auto simp: proc_inv_def proc_ok_def at_loc_def)

lemma df_dead_next:
  assumes "df c s" "dead s j" "j < 3"
  shows "dead s (Suc j)"
proof -
  consider "j = 0" | "j = 1" | "j = 2" using assms(3) by linarith
  then show ?thesis
  proof cases
    case 1
    then have "code (procs s ! 0) = L118" using assms(1,2) by (auto simp: df_def dead_def)
    then show ?thesis using assms(1) 1 by (simp add: df_def)
  qed (use assms in \<open>auto simp: df_def numeral_2_eq_2 numeral_3_eq_3\<close>)
qed

lemma df_dead_mono:
  assumes "df c s" "dead s j" "j \<le> i" "i \<le> 3"
  shows "dead s i"
  using assms(3,2,4)
proof (induction i rule: dec_induct)
  case base
  then show ?case by blast
next
  case (step n)
  then show ?case using df_dead_next [OF assms(1)] by simp
qed

lemma df_alive_below:
  assumes "df c s" "i < length (procs s)" "pexit (procs s ! i) = None" "j \<le> i" "i \<le> 3"
  shows "pexit (procs s ! j) = None"
proof (rule ccontr)
  assume "pexit (procs s ! j) \<noteq> None"
  then have "dead s j" using assms(2,4) by (simp add: dead_def)
  then have "dead s i" by (rule df_dead_mono [OF assms(1) _ assms(4,5)])
  then show False using assms(3) by (simp add: dead_def)
qed

text \<open>An update of the supervisor or of the grandchild is seen only through its own program point.\<close>

lemma upd_obs:
  assumes "i < length (procs s)" "pexit (f (procs s ! i)) = pexit (procs s ! i)" "i \<noteq> 1" "i \<noteq> 3"
  shows "dead (upd_proc i f s) = dead s" "psw (upd_proc i f s) = psw s" "wcn (upd_proc i f s) = wcn s"
    "ps_done (upd_proc i f s) = ps_done s" "length (procs (upd_proc i f s)) = length (procs s)"
proof -
  have px: "pexit (procs (upd_proc i f s) ! j) = pexit (procs s ! j)" for j
    using assms(1,2) by (cases "j = i") (simp_all add: upd_proc_def)
  show "dead (upd_proc i f s) = dead s" by (simp add: fun_eq_iff dead_def px) (simp add: upd_proc_def)
  show "psw (upd_proc i f s) = psw s" "wcn (upd_proc i f s) = wcn s"
    "ps_done (upd_proc i f s) = ps_done s" "length (procs (upd_proc i f s)) = length (procs s)"
    using assms(3,4) by (simp_all add: psw_def wcn_def ps_done_def upd_proc_def)
qed

lemma upd_obs_ps:
  "i \<noteq> 3 \<Longrightarrow> ps_state_ok c (upd_proc i f s) = ps_state_ok c s"
  by (simp add: ps_state_ok_def upd_proc_def)

lemma obs_out [simp]:
  "dead (s\<lparr>out := x\<rparr>) = dead s" "psw (s\<lparr>out := x\<rparr>) = psw s" "wcn (s\<lparr>out := x\<rparr>) = wcn s"
  "ps_state_ok c (s\<lparr>out := x\<rparr>) = ps_state_ok c s" "ps_done (s\<lparr>out := x\<rparr>) = ps_done s"
  "forked (s\<lparr>out := x\<rparr>) = forked s" "consumed (s\<lparr>out := x\<rparr>) = consumed s"
  by (simp_all add: fun_eq_iff dead_def psw_def wcn_def ps_state_ok_def ps_done_def forked_def consumed_def)

lemma forked_goto0:
  assumes "forked s" "0 < length (procs s)" "\<not> prefork l" "1 < length (procs s)"
  shows "forked (goto 0 l s)"
  using assms unfolding forked_def
  by (auto simp: goto_def upd_proc_def nth_list_update split: if_splits)

section \<open>The supervisor's steps\<close>

lemma df_wait:
  assumes "reach c s" "df c s" "code (procs s ! 0) = L114" "pexit (procs s ! 0) = None"
    and "do_wait 0 L115 s = Some s'"
  shows "df c s'"
proof -
  have n0: "0 < length (procs s)" using inv_facts(2) [OF assms(1)] by simp
  have n1: "1 < length (procs s)" using assms(2,3) n0 by (auto simp: df_def forked_def)
  have s': "s' = goto 0 L115 s" using assms(5) by (simp add: do_wait_def split: if_splits)
  have "dead s 1"
    using assms(5) children_sup [OF assms(1) n1] n1 by (auto simp: do_wait_def dead_def split: if_splits)
  moreover have o: "dead s' = dead s" "psw s' = psw s" "wcn s' = wcn s" "ps_done s' = ps_done s"
    "ps_state_ok c s' = ps_state_ok c s"
    using upd_obs [OF n0, of "\<lambda>p. p\<lparr>code := L115\<rparr>"] upd_obs_ps [of 0 c] s' by (simp_all add: goto_def)
  moreover have "forked s'" using forked_goto0 [OF _ n0 _ n1] assms(2) s' by (simp add: df_def)
  moreover have "bufs s' = bufs s" "out s' = out s" "consumed s' = consumed s"
    using s' o(2) by (simp_all add: goto_def upd_proc_def consumed_def)
  moreover have "code (procs s' ! 0) = L115" "pexit (procs s' ! 0) = None"
    using s' n0 assms(4) by (simp_all add: goto_def upd_proc_def)
  ultimately show ?thesis using assms(2,3) unfolding df_def by auto
qed

lemma df_say_done:
  assumes "reach c s" "fault_free c" "df c s" "code (procs s ! 0) = L115" "pexit (procs s ! 0) = None"
  shows "df c (say 0 1 ''commands completed'' (goto 0 L118) s)"
proof -
  have n0: "0 < length (procs s)" using inv_facts(2) [OF assms(1)] by simp
  have "slot_get (fdt (procs s ! 0)) 1 = Some (Term (term1 c))"
    using live_tbl(1) [OF assms(1) n0 assms(5)] assms(4) term1_slot [of c] assms(2)
    by (simp add: loc_tbl_def fault_free_def)
  then have w: "write_fd 0 1 ''commands completed'' s = WOk (s\<lparr>out := out s @ [(term1 c, ''commands completed'')]\<rparr>)"
    by (simp add: write_fd_def)
  let ?s1 = "s\<lparr>out := out s @ [(term1 c, ''commands completed'')]\<rparr>"
  let ?s = "goto 0 L118 ?s1"
  have n0': "0 < length (procs ?s1)" "pexit (procs ?s1 ! 0) = pexit (procs ?s1 ! 0)" using n0 by simp_all
  have d1: "dead s 1" using assms(3,4) by (simp add: df_def)
  have n1: "1 < length (procs s)" using d1 by (simp add: dead_def)
  have o: "dead ?s = dead s" "psw ?s = psw s" "wcn ?s = wcn s" "ps_done ?s = ps_done s"
    "ps_state_ok c ?s = ps_state_ok c s"
    using upd_obs [OF n0'(1), of "\<lambda>p. p\<lparr>code := L118\<rparr>"] upd_obs_ps [of 0 c] by (simp_all add: goto_def)
  have "forked ?s" using forked_goto0 [of ?s1 L118] n0 n1 assms(3) by (simp add: df_def)
  moreover have "bufs ?s = bufs s" "out ?s = out s @ [(term1 c, ''commands completed'')]" "consumed ?s = consumed s"
    using o(2) by (simp_all add: goto_def upd_proc_def consumed_def)
  moreover have "code (procs ?s ! 0) = L118" "pexit (procs ?s ! 0) = None"
    using n0 assms(5) by (simp_all add: goto_def upd_proc_def)
  ultimately show ?thesis using w o d1 assms(3,4) unfolding df_def say_def by auto
qed

lemma df_exit_sup:
  assumes "df c s" "code (procs s ! 0) = L118" "0 < length (procs s)"
  shows "df c (exit_proc 0 (Exited 0) s)"
proof -
  let ?s = "exit_proc 0 (Exited 0) s"
  have px: "pexit (procs ?s ! j) = pexit (procs s ! j)" if "j \<noteq> 0" for j
    using that by (simp add: exit_proc_def upd_proc_def)
  have cd: "code (procs ?s ! j) = code (procs s ! j)" for j
    using assms(3) by (cases "j = 0") (simp_all add: exit_proc_def upd_proc_def)
  have len: "length (procs ?s) = length (procs s)" by (simp add: exit_proc_def upd_proc_def)
  have "dead ?s 1 = dead s 1" "dead ?s 2 = dead s 2" "dead ?s 3 = dead s 3"
    using px [of 1] px [of 2] px [of 3] len by (simp_all add: dead_def)
  moreover have "psw ?s = psw s" "wcn ?s = wcn s" "ps_done ?s = ps_done s" "ps_state_ok c ?s = ps_state_ok c s"
      "forked ?s = forked s"
    by (simp_all add: psw_def wcn_def ps_done_def ps_state_ok_def forked_def cd len)
  moreover have "bufs ?s = bufs s" "out ?s = out s" by (simp_all add: exit_proc_def upd_proc_def)
  moreover have "consumed ?s = consumed s" using calculation by (simp add: consumed_def)
  ultimately show ?thesis using assms(1,2) cd [of 0] unfolding df_def by auto
qed

lemma df_exec:
  assumes "df c s" "i < length (procs s)" "pexit (procs s ! i) = None" "\<not> fails c here"
    and "\<not> prefork (code (procs s ! i))" "code (procs s ! i) \<noteq> L115" "code (procs s ! i) \<noteq> L118"
    and "ext_of (code (procs s ! i)) = None"
    and "i = 1 \<Longrightarrow> mk (upd_proc i (\<lambda>p. p\<lparr>cmdline := args\<rparr>) s) = Wc 0"
    and "i = 3 \<Longrightarrow> \<exists>ls. mk (upd_proc i (\<lambda>p. p\<lparr>cmdline := args\<rparr>) s) = Ps ls 0 \<and> listing_ok c ls"
  shows "df c (do_exec c i here args msg mk s)"
proof -
  let ?m = "mk (upd_proc i (\<lambda>p. p\<lparr>cmdline := args\<rparr>) s)"
  let ?f = "\<lambda>p. p\<lparr>cmdline := args, code := Ext ?m\<rparr>"
  have e: "do_exec c i here args msg mk s = upd_proc i ?f s"
    using assms(2,4) by (simp add: do_exec_def Let_def goto_upd_proc)
  have cd: "code (procs (upd_proc i ?f s) ! j) = (if j = i then Ext ?m else code (procs s ! j))" for j
    using assms(2) by (simp add: upd_proc_def)
  have len: "length (procs (upd_proc i ?f s)) = length (procs s)" by (simp add: upd_proc_def)
  have "wcn (upd_proc i ?f s) = wcn s"
    using assms(8,9) cd [of 1] len by (cases "i = 1") (simp_all add: wcn_def)
  moreover have "psw (upd_proc i ?f s) = psw s \<and> ps_state_ok c (upd_proc i ?f s)"
  proof (cases "i = 3")
    case True
    then obtain ls where ls: "?m = Ps ls 0" "listing_ok c ls" using assms(10) by blast
    have "psw s = []" using assms(8) True by (simp add: psw_def)
    then show ?thesis using ls cd [of 3] len True by (simp add: psw_def ps_state_ok_def)
  next
    case False
    have "ps_state_ok c s" using assms(1) by (simp add: df_def)
    then show ?thesis using False cd [of 3] len by (simp add: psw_def ps_state_ok_def)
  qed
  ultimately show ?thesis unfolding e
    by (intro df_upd [OF assms(1-3)]) (use assms(3,5-7) in simp_all)
qed

lemma exp_cmdline_role:
  "role l = 0 \<Longrightarrow> exp_cmdline c l = argv c"
  "role l = 1 \<Longrightarrow> exp_cmdline c l = argv c \<or> exp_cmdline c l = [''wc'', ''-l'']"
  "role l = 2 \<Longrightarrow> exp_cmdline c l = argv c \<or> exp_cmdline c l = [''grep'', argv c ! 1]"
  by (cases l rule: fd_path.cases; simp)+

lemma list4:
  assumes "length xs = 4"
  shows "xs = [xs ! 0, xs ! 1, xs ! 2, xs ! 3]"
proof (rule nth_equalityI)
  show "length xs = length [xs ! 0, xs ! 1, xs ! 2, xs ! 3]" using assms by simp
next
  fix i assume "i < length xs"
  then consider "i = 0" | "i = 1" | "i = 2" | "i = 3" using assms by linarith
  then show "xs ! i = [xs ! 0, xs ! 1, xs ! 2, xs ! 3] ! i" by cases simp_all
qed

lemma ps_listing_ok:
  assumes "reach c s" "df c s" "3 < length (procs s)" "pexit (procs s ! 3) = None"
  shows "listing_ok c (ps_listing (others c) (upd_proc 3 (\<lambda>p. p\<lparr>cmdline := [''ps'', ''aux'']\<rparr>) s))"
proof -
  let ?s1 = "upd_proc 3 (\<lambda>p. p\<lparr>cmdline := [''ps'', ''aux'']\<rparr>) s"
  have len: "length (procs s) = 4" using inv_facts(1) [OF assms(1)] assms(3) by simp
  have live: "pexit (procs s ! j) = None" if "j \<le> 3" for j
    using df_alive_below [OF assms(2,3,4) that] by simp
  have cl: "cmdline (procs s ! j) = exp_cmdline c (code (procs s ! j))" "role (code (procs s ! j)) = j"
    if "j \<le> 3" for j
    using inv_facts(4,5) [OF assms(1), of j] live [OF that] that len by simp_all
  have l1: "length (procs ?s1) = 4" using len by (simp add: upd_proc_def)
  have live1: "\<forall>q \<in> set (procs ?s1). pexit q = None"
  proof
    fix q assume "q \<in> set (procs ?s1)"
    then obtain j where "j < 4" "q = procs ?s1 ! j" using l1 by (metis in_set_conv_nth)
    then show "pexit q = None" using live [of j] len by (cases "j = 3") (simp_all add: upd_proc_def nth_list_update)
  qed
  have "filter (\<lambda>q. pexit q = None) (procs ?s1) = procs ?s1" using live1 by simp
  moreover have "procs ?s1 = [procs s ! 0, procs s ! 1, procs s ! 2, (procs s ! 3)\<lparr>cmdline := [''ps'', ''aux'']\<rparr>]"
    using list4 [OF l1] len by (simp add: upd_proc_def)
  ultimately have ps: "ps_listing (others c) ?s1 = others c @
      [unwords (cmdline (procs s ! 0)), unwords (cmdline (procs s ! 1)), unwords (cmdline (procs s ! 2)),
       unwords [''ps'', ''aux'']]"
    by (simp add: ps_listing_def)
  have c0: "cmdline (procs s ! 0) = argv c" using cl [of 0] exp_cmdline_role(1) by simp
  have c1: "cmdline (procs s ! 1) = argv c \<or> cmdline (procs s ! 1) = [''wc'', ''-l'']"
    using cl [of 1] exp_cmdline_role(2) by simp
  have c2: "cmdline (procs s ! 2) = argv c \<or> cmdline (procs s ! 2) = [''grep'', argv c ! 1]"
    using cl [of 2] exp_cmdline_role(3) by simp
  show ?thesis unfolding ps listing_ok_def Let_def using c0 c1 c2 by auto
qed

lemma exit_obs:
  assumes "j < length (procs s)" "j \<noteq> 0"
  shows "dead (exit_proc j st s) = (dead s)(j := True)" "psw (exit_proc j st s) = psw s"
    "wcn (exit_proc j st s) = wcn s" "ps_done (exit_proc j st s) = ps_done s"
    "ps_state_ok c (exit_proc j st s) = ps_state_ok c s" "forked (exit_proc j st s) = forked s"
    "code (procs (exit_proc j st s) ! 0) = code (procs s ! 0)" "pexit (procs (exit_proc j st s) ! 0) = pexit (procs s ! 0)"
    "bufs (exit_proc j st s) = bufs s" "out (exit_proc j st s) = out s"
proof -
  have cd: "code (procs (exit_proc j st s) ! q) = code (procs s ! q)" for q
    using assms(1) by (cases "q = j") (simp_all add: exit_proc_def upd_proc_def)
  have len: "length (procs (exit_proc j st s)) = length (procs s)" by (simp add: exit_proc_def upd_proc_def)
  show "dead (exit_proc j st s) = (dead s)(j := True)"
    using assms(1) by (auto simp: fun_eq_iff dead_def exit_proc_def upd_proc_def nth_list_update)
  show "psw (exit_proc j st s) = psw s" "wcn (exit_proc j st s) = wcn s" "ps_done (exit_proc j st s) = ps_done s"
    "ps_state_ok c (exit_proc j st s) = ps_state_ok c s" "forked (exit_proc j st s) = forked s"
    "code (procs (exit_proc j st s) ! 0) = code (procs s ! 0)"
    by (simp_all add: psw_def wcn_def ps_done_def ps_state_ok_def forked_def cd len)
  show "pexit (procs (exit_proc j st s) ! 0) = pexit (procs s ! 0)" "bufs (exit_proc j st s) = bufs s"
    "out (exit_proc j st s) = out s"
    using assms(2) by (simp_all add: exit_proc_def upd_proc_def)
qed

lemma goto_ext_obs:
  assumes "j < length (procs s)" "j \<noteq> 0" "code (procs s ! j) = Ext m"
  shows "dead (goto j (Ext m') s) = dead s" "forked (goto j (Ext m') s) = forked s"
    "code (procs (goto j (Ext m') s) ! 0) = code (procs s ! 0)" "pexit (procs (goto j (Ext m') s) ! 0) = pexit (procs s ! 0)"
    "bufs (goto j (Ext m') s) = bufs s" "out (goto j (Ext m') s) = out s"
    "j \<noteq> 1 \<Longrightarrow> wcn (goto j (Ext m') s) = wcn s" "j \<noteq> 3 \<Longrightarrow> psw (goto j (Ext m') s) = psw s"
    "j \<noteq> 3 \<Longrightarrow> ps_state_ok c (goto j (Ext m') s) = ps_state_ok c s"
    "j \<noteq> 3 \<Longrightarrow> ps_done (goto j (Ext m') s) = ps_done s"
proof -
  have pf: "prefork (code (procs (goto j (Ext m') s) ! q)) = prefork (code (procs s ! q))" for q
    using assms(1,3) by (cases "q = j") (simp_all add: goto_def upd_proc_def)
  have len: "length (procs (goto j (Ext m') s)) = length (procs s)" by (simp add: goto_def upd_proc_def)
  have px: "pexit (procs (goto j (Ext m') s) ! q) = pexit (procs s ! q)" for q
    using assms(1) by (cases "q = j") (simp_all add: goto_def upd_proc_def)
  show "dead (goto j (Ext m') s) = dead s" by (simp add: fun_eq_iff dead_def len px)
  show "forked (goto j (Ext m') s) = forked s" by (simp add: forked_def len pf)
  show "code (procs (goto j (Ext m') s) ! 0) = code (procs s ! 0)" "pexit (procs (goto j (Ext m') s) ! 0) = pexit (procs s ! 0)"
    "bufs (goto j (Ext m') s) = bufs s" "out (goto j (Ext m') s) = out s"
    using assms(2) by (simp_all add: goto_def upd_proc_def)
  show "j \<noteq> 1 \<Longrightarrow> wcn (goto j (Ext m') s) = wcn s" "j \<noteq> 3 \<Longrightarrow> psw (goto j (Ext m') s) = psw s"
    "j \<noteq> 3 \<Longrightarrow> ps_state_ok c (goto j (Ext m') s) = ps_state_ok c s"
    "j \<noteq> 3 \<Longrightarrow> ps_done (goto j (Ext m') s) = ps_done s"
    by (simp_all add: wcn_def psw_def ps_state_ok_def ps_done_def goto_def upd_proc_def)
qed

lemma obs_bufs [simp]:
  "dead (s\<lparr>bufs := x\<rparr>) = dead s" "psw (s\<lparr>bufs := x\<rparr>) = psw s" "wcn (s\<lparr>bufs := x\<rparr>) = wcn s"
  "ps_state_ok c (s\<lparr>bufs := x\<rparr>) = ps_state_ok c s" "ps_done (s\<lparr>bufs := x\<rparr>) = ps_done s"
  "forked (s\<lparr>bufs := x\<rparr>) = forked s"
  by (simp_all add: fun_eq_iff dead_def psw_def wcn_def ps_state_ok_def ps_done_def forked_def)

lemma suffix_snoc: "suffix xs ys \<Longrightarrow> suffix (xs @ [x]) (ys @ [x])"
  by (auto simp: suffix_def)

lemma take_snoc_le: "n \<le> length ys \<Longrightarrow> take n (ys @ [x]) = take n ys"
  by simp

text \<open>A live stage after its \<open>fork\<close>: every lower stage is live and holds its pipe ends.\<close>

lemma stage_facts:
  assumes "reach c s" "df c s" "j < length (procs s)" "pexit (procs s ! j) = None" "j \<le> 3"
    and "code (procs s ! j) = Ext m"
  shows "length (procs s) = 4 \<or> j < 3 \<and> Suc j < length (procs s)"
    and "\<And>q. q \<le> j \<Longrightarrow> pexit (procs s ! q) = None"
proof -
  have "\<not> prefork (code (procs s ! j))" using assms(6) by simp
  then have "j < 3 \<longrightarrow> Suc j < length (procs s)" using assms(2,3) by (auto simp: df_def forked_def)
  then show "length (procs s) = 4 \<or> j < 3 \<and> Suc j < length (procs s)"
    using inv_facts(1) [OF assms(1)] assms(3,5) by linarith
  show "\<And>q. q \<le> j \<Longrightarrow> pexit (procs s ! q) = None" using df_alive_below [OF assms(2-4) _ assms(5)] by blast
qed

lemma holds_stage:
  assumes "reach c s" "std_open c" "j < length (procs s)" "pexit (procs s ! j) = None"
    and "role (code (procs s ! j)) = r" "x \<in> vals (slot_get (fst (loc_tbl c (code (procs s ! j)))))"
  shows "holds s x"
  using holds_vals [OF assms(3)] live_tbl(1) [OF assms(1,3,4)] assms(6) by simp

lemma df_ps:
  assumes r: "reach c s" and ff: "fault_free c" and d: "df c s" and n: "3 < length (procs s)"
    and a: "pexit (procs s ! 3) = None" and cd: "code (procs s ! 3) = Ext (Ps ls k)"
    and st: "do_cmd 3 (Ps ls k) s = Some s'"
  shows "df c s'"
proof -
  have so: "std_open c" using ff by (simp add: fault_free_def)
  have len: "length (procs s) = 4" using stage_facts(1) [OF r d n a _ cd] by simp
  have a2: "pexit (procs s ! 2) = None" using stage_facts(2) [OF r d n a _ cd, of 2] by simp
  have r2: "role (code (procs s ! 2)) = 2" using inv_facts(4) [OF r, of 2] a2 len by simp
  have "code (procs s ! 2) \<noteq> L72" using inv_facts(7) [OF r, of 2] a2 len by auto
  then have hR: "holds s (PipeR (2, 1))"
    using holds_stage [OF r so _ a2 r2 holds_RB_2 [OF so r2]] len by simp
  have w1: "slot_get (fdt (procs s ! 3)) 1 = Some (PipeW (2, 1))"
    using live_tbl(1) [OF r n a] cd ps_map [OF so] by simp
  have ko: "k \<le> length ls" "listing_ok c ls" using d n cd by (simp_all add: df_def ps_state_ok_def)
  have pw: "psw s = take k ls" using n cd by (simp add: psw_def)
  show ?thesis
  proof (cases "k < length ls")
    case True
    let ?s1 = "s\<lparr>bufs := (bufs s)((2, 1) := bufs s (2, 1) @ [ls ! k])\<rparr>"
    have s': "s' = goto 3 (Ext (Ps ls (Suc k))) ?s1"
      using st True w1 hR by (simp add: do_cmd_def cmd_step_def write_fd_def)
    have n1: "3 < length (procs ?s1)" "code (procs ?s1 ! 3) = Ext (Ps ls k)" using n cd by simp_all
    note o = goto_ext_obs [OF _ _ n1(2), where m' = "Ps ls (Suc k)"]
    have pw': "psw s' = psw s @ [ls ! k]"
      using s' n1(1) True pw by (simp add: psw_def goto_def upd_proc_def take_Suc_conv_app_nth)
    have "ps_state_ok c s'" using s' n1(1) True ko(2) by (simp add: ps_state_ok_def goto_def upd_proc_def)
    moreover have "wcn s' = wcn s" using s' o(7) n1(1) by simp
    moreover have "suffix (bufs s' (2, 1)) (psw s')"
      using d s' o(5) n1(1) pw' suffix_snoc by (simp add: df_def)
    moreover have "consumed s' = consumed s"
    proof -
      have "length (psw s) - length (bufs s (2, 1)) \<le> length (psw s)" by simp
      then show ?thesis using s' o(5) n1(1) pw' by (simp add: consumed_def take_snoc_le)
    qed
    moreover have "\<not> dead s 3" using a by (simp add: dead_def)
    ultimately show ?thesis using d s' o(1-6) n1(1) unfolding df_def by auto
  next
    case False
    then have k: "k = length ls" using ko(1) by simp
    have s': "s' = exit_proc 3 (Exited 0) s" using st False by (simp add: do_cmd_def cmd_step_def)
    note o = exit_obs [OF n, where st = "Exited 0"]
    have "ps_done s" using cd k by (simp add: ps_done_def)
    moreover have "consumed s' = consumed s" using s' o(2,9) by (simp add: consumed_def)
    ultimately show ?thesis using d s' o unfolding df_def by auto
  qed
qed

lemma consumed_pop:
  assumes "suffix (l # rest) ys"
  shows "take (length ys - length rest) ys = take (length ys - length (l # rest)) ys @ [l]"
proof -
  obtain zs where "ys = zs @ l # rest" using assms by (auto simp: suffix_def)
  then show ?thesis by simp
qed

lemma df_grep:
  assumes r: "reach c s" and ff: "fault_free c" and d: "df c s" and n: "2 < length (procs s)"
    and a: "pexit (procs s ! 2) = None" and cd: "code (procs s ! 2) = Ext (Grep t b)"
    and st: "do_cmd 2 (Grep t b) s = Some s'"
  shows "df c s'"
proof -
  have so: "std_open c" using ff by (simp add: fault_free_def)
  have len: "length (procs s) = 4" using stage_facts(1) [OF r d n a _ cd] inv_facts(1) [OF r] by linarith
  have a1: "pexit (procs s ! 1) = None" using stage_facts(2) [OF r d n a _ cd, of 1] by simp
  have r1: "role (code (procs s ! 1)) = 1" using inv_facts(4) [OF r, of 1] a1 len by simp
  have "code (procs s ! 1) \<noteq> L62" using inv_facts(7) [OF r, of 1] a1 len by auto
  then have hA: "holds s (PipeR (1, 0))"
    using holds_stage [OF r so _ a1 r1 holds_RA_1 [OF so r1]] len by simp
  have t: "t = argv c ! 1" using inv_facts(6) [OF r n a] cd by simp
  have sl: "slot_get (fdt (procs s ! 2)) 0 = Some (PipeR (2, 1))" "slot_get (fdt (procs s ! 2)) 1 = Some (PipeW (1, 0))"
    using live_tbl(1) [OF r n a] cd grep_map [OF so] by simp_all
  have nd: "\<not> dead s 2" "\<not> dead s 1" using a a1 by (simp_all add: dead_def)
  have sf: "suffix (bufs s (2, 1)) (psw s)" using d by (simp add: df_def)
  show ?thesis
  proof (cases "bufs s (2, 1)")
    case Nil
    have nh: "\<not> holds s (PipeW (2, 1))"
      using st sl(1) Nil by (auto simp: do_cmd_def cmd_step_def read_fd_def)
    have "dead s 3"
    proof (rule ccontr)
      assume "\<not> dead s 3"
      then have a3: "pexit (procs s ! 3) = None" using len by (simp add: dead_def)
      have r3: "role (code (procs s ! 3)) = 3" using inv_facts(4) [OF r, of 3] a3 len by simp
      show False using nh holds_stage [OF r so _ a3 r3 holds_WB_3 [OF so r3]] len by simp
    qed
    moreover have s': "s' = exit_proc 2 (Exited (if b then 0 else 1)) s"
      using st sl(1) Nil nh by (simp add: do_cmd_def cmd_step_def read_fd_def)
    moreover note o = exit_obs [OF n, where st = "Exited (if b then 0 else 1)"]
    moreover have "consumed s' = consumed s" using s' o(2,9) by (simp add: consumed_def)
    ultimately show ?thesis using d Nil unfolding df_def by auto
  next
    case (Cons l rest)
    let ?s1 = "s\<lparr>bufs := (bufs s)((2, 1) := rest)\<rparr>"
    have cons: "consumed ?s1 = consumed s @ [l]"
      using consumed_pop [OF sf [unfolded Cons]] Cons by (simp add: consumed_def)
    have n1: "2 < length (procs ?s1)" "code (procs ?s1 ! 2) = Ext (Grep t b)" using n cd by simp_all
    have sf1: "suffix rest (psw ?s1)" using sf Cons by (auto simp: suffix_def)
    show ?thesis
    proof (cases "sublist t l")
      case True
      let ?s2 = "?s1\<lparr>bufs := (bufs ?s1)((1, 0) := bufs ?s1 (1, 0) @ [l])\<rparr>"
      have s': "s' = goto 2 (Ext (Grep t True)) ?s2"
        using st sl Cons True hA by (simp add: do_cmd_def cmd_step_def read_fd_def write_fd_def holds_def)
      have n2: "2 < length (procs ?s2)" "code (procs ?s2 ! 2) = Ext (Grep t b)" using n cd by simp_all
      note o = goto_ext_obs [OF n2(1) _ n2(2), where m' = "Grep t True"]
      have "consumed s' = consumed s @ [l]" using s' o(5,8) cons by (simp add: consumed_def)
      then show ?thesis using d s' o sf1 True t Cons unfolding df_def by auto
    next
      case False
      have s': "s' = goto 2 (Ext (Grep t b)) ?s1"
        using st sl Cons False by (simp add: do_cmd_def cmd_step_def read_fd_def)
      note o = goto_ext_obs [OF n1(1) _ n1(2), where m' = "Grep t b"]
      have "consumed s' = consumed s @ [l]" using s' o(5,8) cons by (simp add: consumed_def)
      then show ?thesis using d s' o sf1 False t Cons unfolding df_def by auto
    qed
  qed
qed

lemma df_wc:
  assumes r: "reach c s" and ff: "fault_free c" and d: "df c s" and n: "1 < length (procs s)"
    and a: "pexit (procs s ! 1) = None" and cd: "code (procs s ! 1) = Ext (Wc k)"
    and st: "do_cmd 1 (Wc k) s = Some s'"
  shows "df c s'"
proof -
  have so: "std_open c" using ff by (simp add: fault_free_def)
  have n2: "2 < length (procs s)" using stage_facts(1) [OF r d n a _ cd] by linarith
  have sl: "slot_get (fdt (procs s ! 1)) 0 = Some (PipeR (1, 0))" "slot_get (fdt (procs s ! 1)) 1 = Some (Term (term1 c))"
    using live_tbl(1) [OF r n a] cd wc_map [OF so] term1_slot [OF so] ff by (simp_all add: fault_free_def)
  have nd: "\<not> dead s 1" using a by (simp add: dead_def)
  have wk: "wcn s = k" using n cd by (simp add: wcn_def)
  show ?thesis
  proof (cases "bufs s (1, 0)")
    case Nil
    have nh: "\<not> holds s (PipeW (1, 0))"
      using st sl(1) Nil by (auto simp: do_cmd_def cmd_step_def read_fd_def)
    have d2: "dead s 2"
    proof (rule ccontr)
      assume "\<not> dead s 2"
      then have a2: "pexit (procs s ! 2) = None" using n2 by (simp add: dead_def)
      have r2: "role (code (procs s ! 2)) = 2" using inv_facts(4) [OF r n2 a2] .
      show False using nh holds_stage [OF r so n2 a2 r2 holds_WA_2 [OF so r2]] by simp
    qed
    let ?s1 = "s\<lparr>out := out s @ [(term1 c, dec k)]\<rparr>"
    have s': "s' = exit_proc 1 (Exited 0) ?s1"
      using st sl Nil nh by (simp add: do_cmd_def cmd_step_def read_fd_def write_fd_def)
    have n1: "1 < length (procs ?s1)" using n by simp
    note o = exit_obs [OF n1, where st = "Exited 0"]
    have "out s = []" using d nd by (auto simp: df_def)
    moreover have "consumed s' = consumed s" using s' o(2,9) by (simp add: consumed_def)
    ultimately show ?thesis using d s' o d2 Nil wk unfolding df_def by auto
  next
    case (Cons l rest)
    let ?s1 = "s\<lparr>bufs := (bufs s)((1, 0) := rest)\<rparr>"
    have s': "s' = goto 1 (Ext (Wc (Suc k))) ?s1"
      using st sl Cons by (simp add: do_cmd_def cmd_step_def read_fd_def)
    have n1: "1 < length (procs ?s1)" "code (procs ?s1 ! 1) = Ext (Wc k)" using n cd by simp_all
    note o = goto_ext_obs [OF n1(1) _ n1(2), where m' = "Wc (Suc k)"]
    have "wcn s' = Suc k" using s' n by (simp add: wcn_def goto_def upd_proc_def)
    moreover have "consumed s' = consumed s" using s' o(5,8) by (simp add: consumed_def)
    ultimately show ?thesis using d s' o Cons wk unfolding df_def by auto
  qed
qed

lemma moves_close: "do_close i k j l s = Some s' \<Longrightarrow> moves i l s s'"
  by (auto simp: do_close_def moves_def split: option.splits)

lemma moves_dup2: "do_dup2 i k j n l s = Some s' \<Longrightarrow> moves i l s s'"
  by (auto simp: do_dup2_def moves_def split: option.splits)

lemma moves_pipe: "\<not> fails c here \<Longrightarrow> moves i l s (do_pipe c i k here l s)"
  by (auto simp: do_pipe_def moves_def)

lemma moves_goto: "moves i l s (goto i l s)"
  by (auto simp: goto_def moves_def)

lemma df_move:
  assumes "df c s" "i < length (procs s)" "moves i l s s'" "vclass l = vclass (code (procs s ! i))"
  shows "df c s'"
  using assms df_upd_same [OF assms(1,2)] by (auto simp: moves_def)

lemma df_init: "df c (init_sys c)"
  by (simp add: df_def init_sys_def dead_def psw_def wcn_def consumed_def forked_def ps_state_ok_def)

theorem df_pstep:
  assumes r: "reach c s" and ff: "fault_free c" and d: "df c s" and ps: "pstep c i s = Some s'"
  shows "df c s'"
proof -
  from ps have n: "i < length (procs s)" and a: "pexit (procs s ! i) = None"
    and ex: "exec_loc c i (code (procs s ! i)) s = Some s'"
    by (auto simp: pstep_def split: if_splits)
  have ro: "role (code (procs s ! i)) = i" by (rule inv_facts(4) [OF r n a])
  have nf: "\<not> fails c l" for l using ff by (simp add: fault_free_def)
  have av: "length (argv c) = 2" using ff by (simp add: fault_free_def)
  have nw: "prefork (code (procs s ! i)) \<Longrightarrow> length (procs s) = Suc i" by (rule inv_facts(7) [OF r n a])
  show ?thesis
  proof (cases "code (procs s ! i)")
    case L52
    then have "s' = goto i L58 s" using ex av by simp
    then show ?thesis using df_move [OF d n moves_goto [of i L58 s]] L52 by (simp add: vclass_def)
  next
    case L58
    then have iv: "i = 0" using ro by simp
    have "df c (goto i L114 (fork_proc i L62 s))"
      by (rule df_fork [OF d _ a]) (use L58 iv nw in simp_all)
    then show ?thesis using ex L58 nf by (simp add: do_fork_def)
  next
    case L114
    then have i0: "i = 0" using ro by simp
    then show ?thesis using ex L114 df_wait [OF r d _ a [unfolded i0]] by simp
  next
    case L115
    then have i0: "i = 0" using ro by simp
    then show ?thesis using ex L115 df_say_done [OF r ff d _ a [unfolded i0]] by simp
  next
    case L118
    then have i0: "i = 0" using ro by simp
    then show ?thesis using ex L118 df_exit_sup [OF d] n by (simp add: exit_status_zero)
  next
    case L62
    then have "s' = do_pipe c i 0 L62 L67 s" using ex by simp
    then show ?thesis using df_move [OF d n moves_pipe [OF nf]] L62 by (simp add: vclass_def)
  next
    case L67
    then have iv: "i = 1" using ro by simp
    have "df c (goto i L105 (fork_proc i L72 s))"
      by (rule df_fork [OF d _ a]) (use L67 iv nw in simp_all)
    then show ?thesis using ex L67 nf by (simp add: do_fork_def)
  next
    case L105
    then have "do_close i 0 1 L106 s = Some s'" using ex by simp
    then show ?thesis using df_move [OF d n moves_close] L105 by (simp add: vclass_def)
  next
    case L106
    then have "do_dup2 i 0 0 0 L107 s = Some s'" using ex by simp
    then show ?thesis using df_move [OF d n moves_dup2] L106 by (simp add: vclass_def)
  next
    case L107
    then have "do_close i 0 0 L108 s = Some s'" using ex by simp
    then show ?thesis using df_move [OF d n moves_close] L107 by (simp add: vclass_def)
  next
    case L108
    then have i1: "i = 1" using ro by simp
    have "df c (do_exec c i L108 [''wc'', ''-l''] ''execlp wc failed'' (\<lambda>_. Wc 0) s)"
      by (rule df_exec [OF d n a]) (use nf L108 i1 in simp_all)
    then show ?thesis using ex L108 by simp
  next
    case L72
    then have "s' = do_pipe c i 1 L72 L77 s" using ex by simp
    then show ?thesis using df_move [OF d n moves_pipe [OF nf]] L72 by (simp add: vclass_def)
  next
    case L77
    then have iv: "i = 2" using ro by simp
    have "df c (goto i L93 (fork_proc i L82 s))"
      by (rule df_fork [OF d _ a]) (use L77 iv nw in simp_all)
    then show ?thesis using ex L77 nf by (simp add: do_fork_def)
  next
    case L93
    then have "do_close i 1 1 L94 s = Some s'" using ex by simp
    then show ?thesis using df_move [OF d n moves_close] L93 by (simp add: vclass_def)
  next
    case L94
    then have "do_dup2 i 1 0 0 L95 s = Some s'" using ex by simp
    then show ?thesis using df_move [OF d n moves_dup2] L94 by (simp add: vclass_def)
  next
    case L95
    then have "do_close i 1 0 L96 s = Some s'" using ex by simp
    then show ?thesis using df_move [OF d n moves_close] L95 by (simp add: vclass_def)
  next
    case L96
    then have "do_close i 0 0 L97 s = Some s'" using ex by simp
    then show ?thesis using df_move [OF d n moves_close] L96 by (simp add: vclass_def)
  next
    case L97
    then have "do_dup2 i 0 1 1 L98 s = Some s'" using ex by simp
    then show ?thesis using df_move [OF d n moves_dup2] L97 by (simp add: vclass_def)
  next
    case L98
    then have "do_close i 0 1 L99 s = Some s'" using ex by simp
    then show ?thesis using df_move [OF d n moves_close] L98 by (simp add: vclass_def)
  next
    case L99
    then have i2: "i = 2" using ro by simp
    have "df c (do_exec c i L99 [''grep'', argv c ! 1] ''execlp grep failed'' (\<lambda>_. Grep (argv c ! 1) False) s)"
      by (rule df_exec [OF d n a]) (use nf L99 i2 in simp_all)
    then show ?thesis using ex L99 by simp
  next
    case L82
    then have "do_close i 0 0 L83 s = Some s'" using ex by simp
    then show ?thesis using df_move [OF d n moves_close] L82 by (simp add: vclass_def)
  next
    case L83
    then have "do_close i 0 1 L84 s = Some s'" using ex by simp
    then show ?thesis using df_move [OF d n moves_close] L83 by (simp add: vclass_def)
  next
    case L84
    then have "do_close i 1 0 L85 s = Some s'" using ex by simp
    then show ?thesis using df_move [OF d n moves_close] L84 by (simp add: vclass_def)
  next
    case L85
    then have "do_dup2 i 1 1 1 L86 s = Some s'" using ex by simp
    then show ?thesis using df_move [OF d n moves_dup2] L85 by (simp add: vclass_def)
  next
    case L86
    then have "do_close i 1 1 L88 s = Some s'" using ex by simp
    then show ?thesis using df_move [OF d n moves_close] L86 by (simp add: vclass_def)
  next
    case L88
    have i3: "i = 3" using ro L88 by simp
    have "listing_ok c (ps_listing (others c) (upd_proc 3 (\<lambda>p. p\<lparr>cmdline := [''ps'', ''aux'']\<rparr>) s))"
      using ps_listing_ok [OF r d] n a i3 by simp
    then have "df c (do_exec c i L88 [''ps'', ''aux''] ''execlp ps failed'' (\<lambda>s. Ps (ps_listing (others c) s) 0) s)"
      by (intro df_exec [OF d n a]) (use nf L88 i3 in simp_all)
    then show ?thesis using ex L88 by simp
  next
    case (Ext m)
    then have ex': "do_cmd i m s = Some s'" using ex by simp
    show ?thesis
    proof (cases m)
      case (Ps ls k)
      then have iv: "i = 3" using Ext ro by simp
      have "do_cmd 3 (Ps ls k) s = Some s'" using ex' Ps iv by simp
      then show ?thesis using df_ps [OF r ff d] n a Ext Ps iv by simp
    next
      case (Grep t b)
      then have iv: "i = 2" using Ext ro by simp
      have "do_cmd 2 (Grep t b) s = Some s'" using ex' Grep iv by simp
      then show ?thesis using df_grep [OF r ff d] n a Ext Grep iv by simp
    next
      case (Wc k)
      then have iv: "i = 1" using Ext ro by simp
      have "do_cmd 1 (Wc k) s = Some s'" using ex' Wc iv by simp
      then show ?thesis using df_wc [OF r ff d] n a Ext Wc iv by simp
    qed
  qed
qed

lemma df_reach: "reach c s \<Longrightarrow> fault_free c \<Longrightarrow> df c s"
proof (induction rule: reach.induct)
  case start
  show ?case by (rule df_init)
next
  case (extend s s')
  then show ?case using df_pstep by (blast elim: step_elim)
qed

lemma ext_of_Some: "ext_of l = Some m \<Longrightarrow> l = Ext m"
  by (cases l) simp_all

text \<open>The snapshot always lists the supervisor's command line and the grandchild's, both containing the term.\<close>

lemma listing_count:
  assumes "listing_ok c ls" "length (argv c) = 2"
  shows "2 \<le> length (filter (sublist (argv c ! 1)) ls)"
proof -
  let ?t = "argv c ! 1"
  obtain a0 a1 where av: "argv c = [a0, a1]"
    using assms(2) by (auto simp: numeral_2_eq_2 length_Suc_conv)
  have a: "sublist ?t (unwords (argv c))"
    using sublist_unwords_last [of a1 "[a0]"] av by simp
  have g: "sublist ?t (unwords [''grep'', ?t])" using sublist_unwords_last [of ?t "[''grep'']"] by simp
  obtain x1 x2 where ls: "ls = others c @ [unwords (argv c), x1, x2, unwords [''ps'', ''aux'']]"
      and x2: "x2 = unwords (argv c) \<or> x2 = unwords [''grep'', ?t]"
    using assms(1) unfolding listing_ok_def Let_def
    by (metis (no_types, lifting) append_take_drop_id empty_iff empty_set set_ConsD)
  have "sublist ?t x2" using x2 a g by blast
  then show ?thesis using a ls by simp
qed

lemma df_final:
  assumes "reach c s" "df c s" "\<forall>i < length (procs s). pexit (procs s ! i) \<noteq> None"
  shows "\<exists>ls. code (procs s ! 3) = Ext (Ps ls (length ls)) \<and> listing_ok c ls
    \<and> out s = [(term1 c, dec (length (filter (sublist (argv c ! 1)) ls))), (term1 c, ''commands completed'')]"
proof -
  have n0: "0 < length (procs s)" using inv_facts(2) [OF assms(1)] by simp
  have "dead s 0" using assms(3) n0 by (simp add: dead_def)
  then have d: "dead s 1" "dead s 2" "dead s 3" using df_dead_mono [OF assms(2)] by auto
  have c0: "code (procs s ! 0) = L118" using assms(2,3) n0 by (simp add: df_def)
  have e: "bufs s (1, 0) = []" "bufs s (2, 1) = []" "ps_done s" using assms(2) d by (simp_all add: df_def)
  obtain m where m: "ext_of (code (procs s ! 3)) = Some m" using e(3) by (auto simp: ps_done_def split: option.splits)
  then obtain ls where ls: "code (procs s ! 3) = Ext (Ps ls (length ls))"
    using e(3) ext_of_Some [OF m] by (cases m) (auto simp: ps_done_def)
  have n3: "3 < length (procs s)" using d(3) by (simp add: dead_def)
  have "listing_ok c ls" using assms(2) ls n3 by (simp add: df_def ps_state_ok_def)
  moreover have "psw s = ls" using ls n3 by (simp add: psw_def)
  then have "consumed s = ls" using e(2) by (simp add: consumed_def)
  then have "wcn s = length (filter (sublist (argv c ! 1)) ls)" using assms(2) e(1) by (simp add: df_def)
  then have "out s = [(term1 c, dec (length (filter (sublist (argv c ! 1)) ls))), (term1 c, ''commands completed'')]"
    using assms(2) d(1) c0 by (simp add: df_def)
  ultimately show ?thesis using ls by blast
qed

text \<open>
  C8. The output of a complete run: when nothing fails and descriptors 0 and 1
  are open on the terminal, every run that ends with all processes exited has
  written exactly two lines to standard output, in this order: \<open>wc\<close>'s count of
  the lines of \<open>ps\<close>'s snapshot that contain the term, then "commands
  completed".
\<close>

theorem pipeline_output:
  assumes "reach c s" "fault_free c" "\<forall>i < length (procs s). pexit (procs s ! i) \<noteq> None"
  shows "\<exists>ls. code (procs s ! 3) = Ext (Ps ls (length ls)) \<and> listing_ok c ls
    \<and> out s = [(term1 c, dec (length (filter (sublist (argv c ! 1)) ls))), (term1 c, ''commands completed'')]"
  using df_final [OF assms(1) df_reach [OF assms(1,2)] assms(3)] .

text \<open>
  C9. In a complete run in which nothing fails (\<open>fault_free\<close>: no \<open>pipe\<close>,
  \<open>fork\<close> or \<open>execlp\<close> fails, \<open>argc\<close> is 2, descriptors 0 and 1 are open,
  and no inherited descriptor is a pipe end), the printed count is never below two: the snapshot \<open>ps\<close>
  takes always lists the supervisor \<open>./processes t\<close> and the grandchild (as
  \<open>grep t\<close> or still as \<open>./processes t\<close>), both containing the term \<open>t\<close>,
  so a term that matches no other process is reported with count 2, not 0.
  (When an \<open>execlp\<close> fails the count can be 0; that run is not fault-free.)
\<close>

theorem count_includes_pipeline:
  assumes "reach c s" "fault_free c" "\<forall>i < length (procs s). pexit (procs s ! i) \<noteq> None"
  shows "\<exists>n. 2 \<le> n \<and> out s = [(term1 c, dec n), (term1 c, ''commands completed'')]"
proof -
  obtain ls where "listing_ok c ls"
      "out s = [(term1 c, dec (length (filter (sublist (argv c ! 1)) ls))), (term1 c, ''commands completed'')]"
    using df_final [OF assms(1) df_reach [OF assms(1,2)] assms(3)] by blast
  moreover have "length (argv c) = 2" using assms(2) by (simp add: fault_free_def)
  ultimately show ?thesis using listing_count by blast
qed

text \<open>
  C10. When nothing fails (\<open>fault_free\<close>), the supervisor's \<open>wait\<close> for its
  child covers the whole chain: when it is about to print "commands completed"
  (line 115), the child, the grandchild and the great-grandchild all exist and
  have all exited, although it waits only for the child. (With a failing
  \<open>execlp\<close> or \<open>fork\<close> in a stage this does not hold: \<open>ps\<close> may still run.)
\<close>

theorem wait_covers_chain:
  assumes "reach c s" "fault_free c" "code (procs s ! 0) = L115"
  shows "length (procs s) = 4 \<and> (\<forall>i. 0 < i \<and> i < 4 \<longrightarrow> pexit (procs s ! i) \<noteq> None)"
proof -
  have d: "df c s" by (rule df_reach [OF assms(1,2)])
  then have "dead s 1" using assms(3) by (simp add: df_def)
  then have "dead s 1" "dead s 2" "dead s 3" using df_dead_mono [OF d] by auto
  moreover have "length (procs s) \<le> 4" by (rule inv_facts(1) [OF assms(1)])
  ultimately show ?thesis by (auto simp: dead_def less_Suc_eq numeral_eq_Suc)
qed

end
