(* ===== verification/ExitStatus.thy ===== *)
theory ExitStatus
  imports Processes
begin

text \<open>
  The exit status a parent can observe, by the statement where the process
  stopped. The program's own exits are \<open>exit(-1)\<close> (the usage error and every
  \<open>perror\<close> path) and \<open>return 0\<close> (line 118); \<open>exit\<close> passes only the low 8
  bits of its argument, so \<open>-1\<close> is seen as 255 (\<open>exit_status\<close> is
  \<open>word_of_int\<close> into \<open>8 word\<close>). The commands exit with 0, 1 or 2. Any write,
  a diagnostic included, to a pipe with no reader kills the writer with
  \<open>SIGPIPE\<close> (signal 13) instead. A process keeps the program point at which
  it exited, so \<open>exit_ok\<close> relates that point to the status.
\<close>

definition cmd_status :: "status list" where
  "cmd_status = [Exited 0, Exited 1, Exited 2, sigpipe]"

definition exit_ok :: "loc \<Rightarrow> status \<Rightarrow> bool" where
  "exit_ok l st =
     (case l of
        Ext _ \<Rightarrow> st \<in> set cmd_status
      | L118 \<Rightarrow> st = Exited 0
      | _ \<Rightarrow> st = Exited 255 \<or> st = sigpipe)"

definition proc_status_ok :: "loc proc \<Rightarrow> bool" where
  "proc_status_ok p = (case pexit p of None \<Rightarrow> True | Some st \<Rightarrow> exit_ok (code p) st)"

definition statuses_ok :: "sys \<Rightarrow> bool" where
  "statuses_ok s \<longleftrightarrow> (\<forall>p \<in> set (procs s). proc_status_ok p)"

section \<open>Each kernel operation keeps the statuses allowed\<close>

lemma statuses_ok_procs: "procs s' = procs s \<Longrightarrow> statuses_ok s' = statuses_ok s"
  by (simp add: statuses_ok_def)

lemma statuses_ok_upd:
  assumes "statuses_ok s" "i < length (procs s) \<Longrightarrow> proc_status_ok (f (procs s ! i))"
  shows "statuses_ok (upd_proc i f s)"
  using set_update_all [of "procs s" proc_status_ok i "f (procs s ! i)"] assms
  by (simp add: statuses_ok_def upd_proc_def)

lemma statuses_ok_goto: "statuses_ok s \<Longrightarrow> pexit (procs s ! i) = None \<Longrightarrow> statuses_ok (goto i l s)"
  unfolding goto_def by (rule statuses_ok_upd) (simp_all add: proc_status_ok_def)

lemma statuses_ok_exit:
  "statuses_ok s \<Longrightarrow> exit_ok (code (procs s ! i)) st \<Longrightarrow> statuses_ok (exit_proc i st s)"
  unfolding exit_proc_def by (rule statuses_ok_upd) (simp_all add: proc_status_ok_def)

lemma statuses_ok_fork:
  "statuses_ok s \<Longrightarrow> i < length (procs s) \<Longrightarrow> pexit (procs s ! i) = None \<Longrightarrow> statuses_ok (fork_proc i l s)"
  by (simp add: statuses_ok_def fork_proc_def proc_status_ok_def)

lemma statuses_ok_say:
  assumes "procs_only k" "statuses_ok (k s)" "statuses_ok (exit_proc i sigpipe s)"
  shows "statuses_ok (say i n msg k s)"
  using procs_say [OF assms(1), of i n msg s] assms(2,3) statuses_ok_procs by metis

text \<open>A write in a statement other than \<open>return 0\<close> may raise \<open>SIGPIPE\<close>.\<close>

lemma sigpipe_ok: "l \<noteq> L118 \<Longrightarrow> exit_ok l sigpipe"
  by (cases l) (simp_all add: exit_ok_def cmd_status_def)

lemma say_goto_ok:
  "statuses_ok s \<Longrightarrow> pexit (procs s ! i) = None \<Longrightarrow> code (procs s ! i) \<noteq> L118
   \<Longrightarrow> statuses_ok (say i n msg (goto i l) s)"
  by (rule statuses_ok_say) (simp_all add: kernel_simps statuses_ok_goto statuses_ok_exit sigpipe_ok)

lemma say_exit_ok:
  "statuses_ok s \<Longrightarrow> exit_ok (code (procs s ! i)) st \<Longrightarrow> code (procs s ! i) \<noteq> L118
   \<Longrightarrow> statuses_ok (say i n msg (exit_proc i st) s)"
  by (rule statuses_ok_say) (simp_all add: kernel_simps statuses_ok_exit sigpipe_ok)

lemma minus_one_ok: "(\<forall>m. l \<noteq> Ext m) \<Longrightarrow> l \<noteq> L118 \<Longrightarrow> exit_ok l (exit_status (-1))"
  by (cases l) (simp_all add: exit_ok_def exit_status_minus_one)

lemma perror_ok:
  "statuses_ok s \<Longrightarrow> code (procs s ! i) \<noteq> L118 \<Longrightarrow> (\<forall>m. code (procs s ! i) \<noteq> Ext m)
   \<Longrightarrow> statuses_ok (perror_exit i msg s)"
  unfolding perror_exit_def by (rule say_exit_ok) (simp_all add: minus_one_ok)

lemma close_ok: "statuses_ok s \<Longrightarrow> pexit (procs s ! i) = None \<Longrightarrow> do_close i k j l s = Some s' \<Longrightarrow> statuses_ok s'"
  by (auto simp: do_close_def proc_status_ok_def intro!: statuses_ok_upd split: option.splits)

lemma dup2_ok: "statuses_ok s \<Longrightarrow> pexit (procs s ! i) = None \<Longrightarrow> do_dup2 i k j n l s = Some s' \<Longrightarrow> statuses_ok s'"
  by (auto simp: do_dup2_def proc_status_ok_def intro!: statuses_ok_upd split: option.splits)

lemma wait_ok: "statuses_ok s \<Longrightarrow> pexit (procs s ! i) = None \<Longrightarrow> do_wait i l s = Some s' \<Longrightarrow> statuses_ok s'"
  by (auto simp: do_wait_def statuses_ok_goto split: if_splits)

lemma cmd_stop_status:
  assumes "fst (cmd_step i m s) = Stop st"
  shows "st \<in> set cmd_status"
proof (cases m)
  case (Ps ls k)
  then show ?thesis using assms
    by (auto simp: cmd_step_def cmd_status_def split: if_splits wres.splits)
next
  case (Grep t b)
  obtain r s1 where rd: "read_fd i 0 s = (r, s1)" by (cases "read_fd i 0 s")
  show ?thesis using assms Grep rd
    by (cases r) (auto simp: cmd_step_def cmd_status_def split: if_splits wres.splits)
next
  case (Wc n)
  obtain r s1 where rd: "read_fd i 0 s = (r, s1)" by (cases "read_fd i 0 s")
  show ?thesis using assms Wc rd
    by (cases r) (auto simp: cmd_step_def cmd_status_def split: if_splits wres.splits)
qed

lemma pipe_ok:
  "statuses_ok s \<Longrightarrow> pexit (procs s ! i) = None \<Longrightarrow> code (procs s ! i) \<noteq> L118
   \<Longrightarrow> (\<forall>m. code (procs s ! i) \<noteq> Ext m) \<Longrightarrow> statuses_ok (do_pipe c i k here l s)"
  by (auto simp: do_pipe_def proc_status_ok_def intro!: statuses_ok_upd perror_ok)

lemma fork_ok:
  "statuses_ok s \<Longrightarrow> i < length (procs s) \<Longrightarrow> pexit (procs s ! i) = None \<Longrightarrow> statuses_ok (on_fail s)
   \<Longrightarrow> statuses_ok (do_fork c i here lc lp on_fail s)"
  by (simp add: do_fork_def statuses_ok_goto statuses_ok_fork kernel_simps nth_append)

lemma exec_ok:
  "statuses_ok s \<Longrightarrow> pexit (procs s ! i) = None \<Longrightarrow> code (procs s ! i) \<noteq> L118
   \<Longrightarrow> (\<forall>m. code (procs s ! i) \<noteq> Ext m) \<Longrightarrow> statuses_ok (do_exec c i here args msg mk s)"
proof (cases "fails c here")
  case True
  then show "statuses_ok s \<Longrightarrow> pexit (procs s ! i) = None \<Longrightarrow> code (procs s ! i) \<noteq> L118
   \<Longrightarrow> (\<forall>m. code (procs s ! i) \<noteq> Ext m) \<Longrightarrow> statuses_ok (do_exec c i here args msg mk s)"
    by (simp add: do_exec_def perror_ok)
next
  case False
  let ?s1 = "upd_proc i (\<lambda>p. p\<lparr>cmdline := args\<rparr>) s"
  assume ok: "statuses_ok s" and a: "pexit (procs s ! i) = None"
  have "statuses_ok ?s1" using ok a by (intro statuses_ok_upd) (simp_all add: proc_status_ok_def)
  moreover have "pexit (procs ?s1 ! i) = None"
    using a by (cases "i < length (procs s)") (simp_all add: kernel_simps list_update_beyond not_less)
  ultimately show "statuses_ok (do_exec c i here args msg mk s)"
    using False by (simp add: do_exec_def Let_def statuses_ok_goto)
qed

lemma cmd_ok:
  "statuses_ok s \<Longrightarrow> pexit (procs s ! i) = None \<Longrightarrow> code (procs s ! i) = Ext m
   \<Longrightarrow> do_cmd i m s = Some s' \<Longrightarrow> statuses_ok s'"
proof -
  assume ok: "statuses_ok s" and a: "pexit (procs s ! i) = None" and e: "code (procs s ! i) = Ext m"
    and st: "do_cmd i m s = Some s'"
  obtain r s1 where rs: "cmd_step i m s = (r, s1)" by (cases "cmd_step i m s")
  have p: "procs s1 = procs s" using cmd_step_procs [of i m s] rs by simp
  have ok1: "statuses_ok s1" using ok p statuses_ok_procs by metis
  show "statuses_ok s'"
  proof (cases r)
    case (Cont m')
    then have "s' = goto i (Ext m') s1" using st rs by (simp add: do_cmd_def)
    then show ?thesis using ok1 a p statuses_ok_goto by simp
  next
    case (Stop x)
    then have "x \<in> set cmd_status" using cmd_stop_status [of i m s x] rs by simp
    then have "exit_ok (code (procs s1 ! i)) x" using e p by (simp add: exit_ok_def)
    moreover have "s' = exit_proc i x s1" using st rs Stop by (simp add: do_cmd_def)
    ultimately show ?thesis using ok1 statuses_ok_exit by simp
  next
    case Blocked
    then show ?thesis using st rs by (simp add: do_cmd_def)
  qed
qed

lemma exec_loc_ok:
  "statuses_ok s \<Longrightarrow> i < length (procs s) \<Longrightarrow> pexit (procs s ! i) = None \<Longrightarrow> code (procs s ! i) = l
   \<Longrightarrow> exec_loc c i l s = Some s' \<Longrightarrow> statuses_ok s'"
  by (cases l)
     (auto simp: pipe_ok fork_ok exec_ok say_goto_ok say_exit_ok perror_ok statuses_ok_goto
        statuses_ok_exit exit_ok_def exit_status_minus_one exit_status_zero
        dest: close_ok [rotated 2] dup2_ok [rotated 2] wait_ok [rotated 2] cmd_ok [rotated 3])

lemma pstep_statuses_ok: "statuses_ok s \<Longrightarrow> pstep c i s = Some s' \<Longrightarrow> statuses_ok s'"
  by (auto simp: pstep_def split: if_splits intro: exec_loc_ok)

lemma reach_statuses_ok: "reach c s \<Longrightarrow> statuses_ok s"
proof (induction rule: reach.induct)
  case start
  then show ?case by (simp add: statuses_ok_def init_sys_def proc_status_ok_def)
next
  case (extend s s')
  then show ?case by (auto elim: step_elim intro: pstep_statuses_ok)
qed

section \<open>The exit status by the statement that ends a process\<close>

text \<open>
  C13. In every reachable state the status of an exited process is fixed by
  the statement at which it stopped: after \<open>return 0\<close> (line 118) it is 0;
  at the usage check (line 54) and at every \<open>perror\<close> path (lines 63, 68, 73,
  78, 89, 100 and 109) it is 255, the low byte of \<open>exit(-1)\<close>, or \<open>SIGPIPE\<close>
  when the diagnostic went into a pipe with no reader; a replaced image
  (\<open>ps\<close>, \<open>grep\<close>, \<open>wc\<close>) exits with 0, 1, 2 or \<open>SIGPIPE\<close>.
\<close>

theorem exit_status_by_point:
  "reach c s \<Longrightarrow> i < length (procs s) \<Longrightarrow> pexit (procs s ! i) = Some st
   \<Longrightarrow> (case code (procs s ! i) of
          Ext _ \<Rightarrow> st \<in> {Exited 0, Exited 1, Exited 2, Signaled 13}
        | L118 \<Rightarrow> st = Exited 0
        | _ \<Rightarrow> st = Exited 255 \<or> st = Signaled 13)"
proof -
  assume r: "reach c s" and n: "i < length (procs s)" and e: "pexit (procs s ! i) = Some st"
  have "proc_status_ok (procs s ! i)"
    using reach_statuses_ok [OF r] nth_mem [OF n] by (simp add: statuses_ok_def)
  then have "exit_ok (code (procs s ! i)) st" using e by (simp add: proc_status_ok_def)
  then show ?thesis by (cases "code (procs s ! i)") (auto simp: exit_ok_def cmd_status_def)
qed

end
