(* ===== verification/Supervisor.thy ===== *)
theory Supervisor
  imports Liveness
begin

text \<open>
  The supervisor's exit status. A step of one process changes no other
  process's entry in the process table (\<open>exec_loc_frame\<close>), only its own, the
  pipes and the output, or appends a forked child. The supervisor itself exits
  only at \<open>return 0\<close> (line 118) once \<open>argc\<close> is right, because its messages go
  to inherited descriptors, which are no pipe ends and so cannot raise
  \<open>SIGPIPE\<close>. Hence what the stages do, including every failure of their
  \<open>pipe\<close>, \<open>fork\<close> and \<open>execlp\<close> calls, never reaches the program's exit status.
\<close>

section \<open>Other processes are untouched by a step\<close>

definition untouched :: "pid \<Rightarrow> sys \<Rightarrow> sys \<Rightarrow> bool" where
  "untouched i s s' \<longleftrightarrow>
     length (procs s) \<le> length (procs s') \<and> (\<forall>k < length (procs s). k \<noteq> i \<longrightarrow> procs s' ! k = procs s ! k)"

lemma untouched_upd: "untouched i s (upd_proc i f s)"
  by (simp add: untouched_def kernel_simps)

lemma untouched_goto: "untouched i s (goto i l s)"
  by (simp add: untouched_def kernel_simps)

lemma untouched_exit: "untouched i s (exit_proc i st s)"
  by (simp add: untouched_def kernel_simps)

lemma untouched_trans: "untouched i s s1 \<Longrightarrow> untouched i s1 s2 \<Longrightarrow> untouched i s s2"
  by (auto simp: untouched_def)

lemma untouched_procs: "procs s1 = procs s \<Longrightarrow> untouched i s1 s2 \<Longrightarrow> untouched i s s2"
  by (simp add: untouched_def)

lemma untouched_fork: "i < length (procs s) \<Longrightarrow> untouched i s (goto i l (fork_proc i lc s))"
  by (simp add: untouched_def kernel_simps nth_append)

lemma untouched_say_goto: "untouched i s (say i n msg (goto i l) s)"
  using procs_say [of "goto i l" i n msg s] by (auto simp: kernel_simps untouched_def)

lemma untouched_say_exit: "untouched i s (say i n msg (exit_proc i st) s)"
  using procs_say [of "exit_proc i st" i n msg s] by (auto simp: kernel_simps untouched_def)

lemma untouched_perror: "untouched i s (perror_exit i msg s)"
  by (simp add: perror_exit_def untouched_say_exit)

lemma pipe_untouched: "untouched i s (do_pipe c i k here l s)"
  by (simp add: do_pipe_def untouched_perror untouched_upd)

lemma fork_untouched:
  "i < length (procs s) \<Longrightarrow> untouched i s (on_fail s) \<Longrightarrow> untouched i s (do_fork c i here lc lp on_fail s)"
  by (simp add: do_fork_def untouched_fork)

lemma exec_untouched: "untouched i s (do_exec c i here args msg mk s)"
  by (simp add: do_exec_def Let_def untouched_perror untouched_trans [OF untouched_upd untouched_goto])

lemma close_untouched: "do_close i k j l s = Some s' \<Longrightarrow> untouched i s s'"
  by (auto simp: do_close_def untouched_upd split: option.splits)

lemma dup2_untouched: "do_dup2 i k j n l s = Some s' \<Longrightarrow> untouched i s s'"
  by (auto simp: do_dup2_def untouched_upd split: option.splits)

lemma wait_untouched: "do_wait i l s = Some s' \<Longrightarrow> untouched i s s'"
  by (auto simp: do_wait_def untouched_goto split: if_splits)

lemma cmd_untouched: "do_cmd i m s = Some s' \<Longrightarrow> untouched i s s'"
proof -
  assume st: "do_cmd i m s = Some s'"
  obtain r s1 where rs: "cmd_step i m s = (r, s1)" by (cases "cmd_step i m s")
  have p: "procs s1 = procs s" using cmd_step_procs [of i m s] rs by simp
  show ?thesis
  proof (cases r)
    case (Cont m')
    then show ?thesis using st rs untouched_procs [OF p untouched_goto [of i s1 "Ext m'"]] by (simp add: do_cmd_def)
  next
    case (Stop x)
    then show ?thesis using st rs untouched_procs [OF p untouched_exit [of i s1 x]] by (simp add: do_cmd_def)
  next
    case Blocked
    then show ?thesis using st rs by (simp add: do_cmd_def)
  qed
qed

lemma exec_loc_frame:
  "i < length (procs s) \<Longrightarrow> exec_loc c i l s = Some s' \<Longrightarrow> untouched i s s'"
  by (cases l)
     (auto simp: pipe_untouched fork_untouched exec_untouched untouched_say_goto untouched_say_exit
        untouched_perror untouched_goto untouched_exit
        dest: close_untouched dup2_untouched wait_untouched cmd_untouched)

lemma pstep_frame:
  assumes "pstep c i s = Some s'" "k < length (procs s)" "k \<noteq> i"
  shows "procs s' ! k = procs s ! k"
proof -
  have "i < length (procs s)" "exec_loc c i (code (procs s ! i)) s = Some s'"
    using assms(1) by (auto simp: pstep_def split: if_splits)
  then have "untouched i s s'" by (rule exec_loc_frame)
  then show ?thesis using assms(2,3) by (simp add: untouched_def)
qed

section \<open>The supervisor's own steps\<close>

text \<open>A message through a descriptor that is no pipe's write end cannot kill the writer.\<close>

lemma say_no_pipe:
  assumes "\<forall>p. slot_get (fdt (procs s ! i)) n \<noteq> Some (PipeW p)"
  shows "procs (say i n msg (goto i l) s) = procs (goto i l s)"
  using assms by (auto simp: say_def write_fd_def kernel_simps split: option.splits ofile.splits)

lemma sup_step:
  assumes "reach c s" "length (argv c) = 2" "terms_only c" "pexit (procs s ! 0) = None"
  shows "exec_loc c 0 (code (procs s ! 0)) s = Some s'
    \<Longrightarrow> pexit (procs s' ! 0) = None \<or> pexit (procs s' ! 0) = Some (Exited 0)"
proof -
  have n: "0 < length (procs s)" using reach_inv [OF assms(1)] by (simp add: proc_inv_def)
  have ro: "role (code (procs s ! 0)) = 0" by (rule live_tbl(2) [OF assms(1) n assms(4)])
  have np: "\<forall>p. slot_get (fdt (procs s ! 0)) k \<noteq> Some (PipeW p)" for k
    using live_tbl(1) [OF assms(1) n assms(4)] supervisor_no_pipes [OF assms(3) ro] by simp
  have "code (procs s ! 0) \<in> {L52, L58, L114, L115, L118}"
    using ro by (cases "code (procs s ! 0)" rule: role.cases) simp_all
  then show "exec_loc c 0 (code (procs s ! 0)) s = Some s'
    \<Longrightarrow> pexit (procs s' ! 0) = None \<or> pexit (procs s' ! 0) = Some (Exited 0)"
    using assms(2,4) n say_no_pipe [OF np]
    by (auto simp: kernel_simps do_fork_def do_wait_def nth_append split: if_splits)
qed

lemma sup_reach:
  assumes "length (argv c) = 2" "terms_only c"
  shows "reach c s \<Longrightarrow> pexit (procs s ! 0) = None \<or> pexit (procs s ! 0) = Some (Exited 0)"
proof (induction rule: reach.induct)
  case start
  then show ?case by (simp add: init_sys_def)
next
  case (extend s s')
  from extend.hyps(2) obtain i where ps: "pstep c i s = Some s'" by (auto elim: step_elim)
  have n: "0 < length (procs s)" using reach_inv [OF extend.hyps(1)] by (simp add: proc_inv_def)
  show ?case
  proof (cases "i = 0")
    case True
    then have "pexit (procs s ! 0) = None" "exec_loc c 0 (code (procs s ! 0)) s = Some s'"
      using ps by (auto simp: pstep_def split: if_splits)
    then show ?thesis using sup_step [OF extend.hyps(1) assms] by blast
  next
    case False
    then show ?thesis using pstep_frame [OF ps n] extend.IH by simp
  qed
qed

section \<open>The program's exit status\<close>

text \<open>
  C14. Once \<open>argc\<close> is 2 and the inherited descriptors are no pipe ends, the
  program's exit status is 0 in every run, whatever happens in the stages:
  a failing \<open>fork\<close> of the child, a failing \<open>pipe\<close>, \<open>fork\<close> or \<open>execlp\<close>
  in any stage (each of which makes that process \<open>exit(-1)\<close>), or a command's
  own error status. No failure of the pipeline is visible to the program's
  caller through its status.
\<close>

theorem supervisor_exit_zero:
  assumes "reach c s" "length (argv c) = 2" "terms_only c" "pexit (procs s ! 0) = Some st"
  shows "st = Exited 0"
  using sup_reach [OF assms(2,3) assms(1)] assms(4) by simp

end
