(* ===== verification/StageFailures.thy ===== *)
theory StageFailures
  imports ExitStatus Invariant
begin

text \<open>
  What a failing call of a stage means for the run. Each stage replaces
  its image only through \<open>execlp\<close> (lines 88, 99 and 108), and a failing call
  is followed by \<open>perror\<close> and \<open>exit(-1)\<close> in the same process. The invariant
  \<open>codes_ok\<close> says that no process runs a command whose \<open>execlp\<close> the
  environment makes fail; every step keeps it, because a running command only
  continues as the same command and a \<open>fork\<close> child starts at a program point
  of \<open>main\<close>.
\<close>

text \<open>
  The calls that can fail (\<open>pipe\<close>, \<open>fork\<close>, \<open>execlp\<close>) a process has
  passed on the success branch when it is at a point: a process exists and runs
  the code of a point only if each of them succeeded. \<open>return 0\<close> (line 118)
  is also reached after a failing \<open>fork\<close>, so its list is empty.
\<close>

fun calls_before :: "loc \<Rightarrow> loc list" where
  "calls_before L52 = []"
| "calls_before L58 = []"
| "calls_before L114 = [L58]"
| "calls_before L115 = [L58]"
| "calls_before L118 = []"
| "calls_before L62 = [L58]"
| "calls_before L67 = [L58, L62]"
| "calls_before L105 = [L58, L62, L67]"
| "calls_before L106 = [L58, L62, L67]"
| "calls_before L107 = [L58, L62, L67]"
| "calls_before L108 = [L58, L62, L67]"
| "calls_before (Ext (Wc _)) = [L58, L62, L67, L108]"
| "calls_before L72 = [L58, L62, L67]"
| "calls_before L77 = [L58, L62, L67, L72]"
| "calls_before L93 = [L58, L62, L67, L72, L77]"
| "calls_before L94 = [L58, L62, L67, L72, L77]"
| "calls_before L95 = [L58, L62, L67, L72, L77]"
| "calls_before L96 = [L58, L62, L67, L72, L77]"
| "calls_before L97 = [L58, L62, L67, L72, L77]"
| "calls_before L98 = [L58, L62, L67, L72, L77]"
| "calls_before L99 = [L58, L62, L67, L72, L77]"
| "calls_before (Ext (Grep _ _)) = [L58, L62, L67, L72, L77, L99]"
| "calls_before L82 = [L58, L62, L67, L72, L77]"
| "calls_before L83 = [L58, L62, L67, L72, L77]"
| "calls_before L84 = [L58, L62, L67, L72, L77]"
| "calls_before L85 = [L58, L62, L67, L72, L77]"
| "calls_before L86 = [L58, L62, L67, L72, L77]"
| "calls_before L88 = [L58, L62, L67, L72, L77]"
| "calls_before (Ext (Ps _ _)) = [L58, L62, L67, L72, L77, L88]"

definition path_ok :: "cfg \<Rightarrow> loc \<Rightarrow> bool" where
  "path_ok c l \<longleftrightarrow> list_all (\<lambda>x. \<not> fails c x) (calls_before l)"

definition codes_ok :: "cfg \<Rightarrow> sys \<Rightarrow> bool" where
  "codes_ok c s \<longleftrightarrow> (\<forall>p \<in> set (procs s). path_ok c (code p))"

text \<open>
  The most processes a run can have: each \<open>fork\<close> of the chain (lines 58, 67
  and 77) is made by the newest process, so a failing one, or a failing \<open>pipe\<close>
  before it (lines 62 and 72), stops the chain there.
\<close>

definition fork_bound :: "cfg \<Rightarrow> nat" where
  "fork_bound c =
     (if fails c L58 then 1 else if fails c L62 \<or> fails c L67 then 2
      else if fails c L72 \<or> fails c L77 then 3 else 4)"

section \<open>Each kernel operation keeps the invariant\<close>

lemma codes_ok_procs: "procs s' = procs s \<Longrightarrow> codes_ok c s' = codes_ok c s"
  by (simp add: codes_ok_def)

lemma codes_ok_upd:
  assumes "codes_ok c s" "path_ok c (code (f (procs s ! i))) \<or> code (f (procs s ! i)) = code (procs s ! i)"
  shows "codes_ok c (upd_proc i f s)"
proof -
  have "i < length (procs s) \<Longrightarrow> path_ok c (code (f (procs s ! i)))"
    using assms nth_mem [of i "procs s"] by (auto simp: codes_ok_def)
  then show ?thesis
    using set_update_all [of "procs s" "\<lambda>p. path_ok c (code p)" i "f (procs s ! i)"] assms(1)
    by (simp add: codes_ok_def upd_proc_def)
qed

lemma codes_ok_goto: "codes_ok c s \<Longrightarrow> path_ok c l \<Longrightarrow> codes_ok c (goto i l s)"
  unfolding goto_def by (rule codes_ok_upd) simp_all

lemma codes_ok_exit: "codes_ok c s \<Longrightarrow> codes_ok c (exit_proc i st s)"
  unfolding exit_proc_def by (rule codes_ok_upd) simp_all

lemma codes_ok_fork:
  "codes_ok c s \<Longrightarrow> path_ok c l \<Longrightarrow> codes_ok c (fork_proc i l s)"
  by (simp add: codes_ok_def fork_proc_def)

lemma codes_ok_say:
  assumes "procs_only k" "codes_ok c (k s)" "codes_ok c s"
  shows "codes_ok c (say i n msg k s)"
  using procs_say [OF assms(1), of i n msg s] assms(2) codes_ok_exit [OF assms(3)] codes_ok_procs by metis

lemma say_goto_codes: "codes_ok c s \<Longrightarrow> path_ok c l \<Longrightarrow> codes_ok c (say i n msg (goto i l) s)"
  by (rule codes_ok_say) (simp_all add: kernel_simps codes_ok_goto)

lemma say_exit_codes: "codes_ok c s \<Longrightarrow> codes_ok c (say i n msg (exit_proc i st) s)"
  by (rule codes_ok_say) (simp_all add: kernel_simps codes_ok_exit)

lemma perror_codes: "codes_ok c s \<Longrightarrow> codes_ok c (perror_exit i msg s)"
  unfolding perror_exit_def by (rule say_exit_codes)

lemma close_codes: "codes_ok c s \<Longrightarrow> do_close i k j l s = Some s' \<Longrightarrow> path_ok c l \<Longrightarrow> codes_ok c s'"
  by (auto simp: do_close_def intro: codes_ok_upd split: option.splits)

lemma dup2_codes: "codes_ok c s \<Longrightarrow> do_dup2 i k j n l s = Some s' \<Longrightarrow> path_ok c l \<Longrightarrow> codes_ok c s'"
  by (auto simp: do_dup2_def intro: codes_ok_upd split: option.splits)

lemma pipe_codes:
  "codes_ok c s \<Longrightarrow> (\<not> fails c here \<Longrightarrow> path_ok c l) \<Longrightarrow> codes_ok c (do_pipe c i k here l s)"
  by (auto simp: do_pipe_def intro: codes_ok_upd perror_codes)

lemma fork_codes:
  "codes_ok c s \<Longrightarrow> (\<not> fails c here \<Longrightarrow> path_ok c lc \<and> path_ok c lp)
   \<Longrightarrow> (fails c here \<Longrightarrow> codes_ok c (on_fail s)) \<Longrightarrow> codes_ok c (do_fork c i here lc lp on_fail s)"
  by (auto simp: do_fork_def codes_ok_goto codes_ok_fork)

lemma exec_codes:
  assumes "codes_ok c s" "\<not> fails c here \<Longrightarrow> path_ok c (Ext (mk (upd_proc i (\<lambda>p. p\<lparr>cmdline := args\<rparr>) s)))"
  shows "codes_ok c (do_exec c i here args msg mk s)"
proof (cases "fails c here")
  case True
  then show ?thesis using perror_codes [OF assms(1)] by (simp add: do_exec_def)
next
  case False
  have "codes_ok c (upd_proc i (\<lambda>p. p\<lparr>cmdline := args\<rparr>) s)" by (rule codes_ok_upd [OF assms(1)]) simp
  then show ?thesis using False assms(2) by (simp add: do_exec_def Let_def codes_ok_goto)
qed

lemma wait_codes: "codes_ok c s \<Longrightarrow> do_wait i l s = Some s' \<Longrightarrow> path_ok c l \<Longrightarrow> codes_ok c s'"
  by (auto simp: do_wait_def codes_ok_goto split: if_splits)

lemma cont_ok: "fst (cmd_step i m s) = Cont m' \<Longrightarrow> path_ok c (Ext m) \<Longrightarrow> path_ok c (Ext m')"
  using cmd_step_Cont [of i m s m'] by (auto simp: path_ok_def)

lemma cmd_codes:
  assumes "codes_ok c s" "path_ok c (Ext m)" "do_cmd i m s = Some s'"
  shows "codes_ok c s'"
proof -
  obtain r s1 where rs: "cmd_step i m s = (r, s1)" by (cases "cmd_step i m s")
  have ok1: "codes_ok c s1" using assms(1) cmd_step_procs [of i m s] rs codes_ok_procs by (metis snd_conv)
  show ?thesis
  proof (cases r)
    case (Cont m')
    then have "path_ok c (Ext m')" using cont_ok [of i m s m' c] rs assms(2) by simp
    then show ?thesis using assms(3) rs ok1 Cont codes_ok_goto [OF ok1, of "Ext m'" i] by (simp add: do_cmd_def)
  next
    case (Stop x)
    then show ?thesis using assms(3) rs ok1 codes_ok_exit [OF ok1, of i x] by (simp add: do_cmd_def)
  next
    case Blocked
    then show ?thesis using assms(3) rs by (simp add: do_cmd_def)
  qed
qed

lemma exec_loc_codes:
  "codes_ok c s \<Longrightarrow> path_ok c l \<Longrightarrow> exec_loc c i l s = Some s' \<Longrightarrow> codes_ok c s'"
  by (cases l)
     (auto simp: path_ok_def pipe_codes fork_codes say_goto_codes perror_codes codes_ok_goto exec_codes
        codes_ok_exit say_exit_codes
        dest: close_codes [rotated] dup2_codes [rotated] wait_codes [rotated] cmd_codes [rotated 2])

lemma pstep_codes: "codes_ok c s \<Longrightarrow> pstep c i s = Some s' \<Longrightarrow> codes_ok c s'"
proof -
  assume ok: "codes_ok c s" and ps: "pstep c i s = Some s'"
  then have n: "i < length (procs s)" and ex: "exec_loc c i (code (procs s ! i)) s = Some s'"
    by (auto simp: pstep_def split: if_splits)
  have "path_ok c (code (procs s ! i))" using ok nth_mem [OF n] by (simp add: codes_ok_def)
  then show "codes_ok c s'" using exec_loc_codes [OF ok _ ex] by simp
qed

lemma reach_codes_ok: "reach c s \<Longrightarrow> codes_ok c s"
proof (induction rule: reach.induct)
  case start
  then show ?case by (simp add: codes_ok_def init_sys_def path_ok_def)
next
  case (extend s s')
  then show ?case by (auto elim: step_elim intro: pstep_codes)
qed

section \<open>A failing fork\<close>

text \<open>Only a successful \<open>fork\<close> of the chain adds a process.\<close>

lemma length_say_goto: "length (procs (say i n msg (goto i l) s)) = length (procs s)"
  using procs_say [of "goto i l" i n msg s] by (auto simp: kernel_simps)

lemma length_say_exit: "length (procs (say i n msg (exit_proc i st) s)) = length (procs s)"
  using procs_say [of "exit_proc i st" i n msg s] by (auto simp: kernel_simps)

lemma length_cmd: "do_cmd i m s = Some s' \<Longrightarrow> length (procs s') = length (procs s)"
  using cmd_step_procs [of i m s]
  by (cases "cmd_step i m s") (auto simp: do_cmd_def kernel_simps split: cmd_next.splits)

lemma exec_loc_length:
  "exec_loc c i l s = Some s' \<Longrightarrow>
   length (procs s') = length (procs s)
   \<or> (l \<in> {L58, L67, L77} \<and> \<not> fails c l \<and> length (procs s') = Suc (length (procs s)))"
  by (cases l)
     (auto simp: kernel_simps do_fork_def do_pipe_def do_exec_def do_close_def do_dup2_def do_wait_def
        perror_exit_def length_say_goto length_say_exit Let_def
        split: option.splits if_splits dest: length_cmd)

lemma fork_bound_step:
  assumes "reach c s" "length (procs s) \<le> fork_bound c" "pstep c i s = Some s'"
  shows "length (procs s') \<le> fork_bound c"
proof -
  from assms(3) have n: "i < length (procs s)" and a: "pexit (procs s ! i) = None"
    and ex: "exec_loc c i (code (procs s ! i)) s = Some s'"
    by (auto simp: pstep_def split: if_splits)
  have "proc_ok c (length (procs s)) i (procs s ! i)"
    using reach_inv [OF assms(1)] n by (simp add: proc_inv_def)
  then have ro: "role (code (procs s ! i)) = i"
    and pf: "prefork (code (procs s ! i)) \<Longrightarrow> length (procs s) = Suc i"
    using a by (auto simp: proc_ok_def)
  from exec_loc_length [OF ex] show ?thesis
  proof
    assume "length (procs s') = length (procs s)"
    then show ?thesis using assms(2) by simp
  next
    assume "code (procs s ! i) \<in> {L58, L67, L77} \<and> \<not> fails c (code (procs s ! i))
      \<and> length (procs s') = Suc (length (procs s))"
    moreover have "path_ok c (code (procs s ! i))"
      using reach_codes_ok [OF assms(1)] nth_mem [OF n] by (simp add: codes_ok_def)
    ultimately show ?thesis using ro pf assms(2) by (auto simp: fork_bound_def path_ok_def split: if_splits)
  qed
qed

text \<open>
  C15. A failing \<open>fork\<close> or \<open>pipe\<close> ends the chain where it fails. If the
  supervisor's \<open>fork\<close> (line 58) fails, the run has only the supervisor. If
  the child's \<open>pipe\<close> or \<open>fork\<close> (lines 62, 67) fails, it has at most the
  supervisor and the child. If the grandchild's (lines 72, 77) fails, it has at
  most three processes. No process retries or forks in another place. With no
  failing call there are at most four processes.
\<close>

theorem fork_failure_bounds_chain: "reach c s \<Longrightarrow> length (procs s) \<le> fork_bound c"
proof (induction rule: reach.induct)
  case start
  then show ?case by (simp add: init_sys_def fork_bound_def)
next
  case (extend s s')
  then show ?case by (auto elim: step_elim intro: fork_bound_step)
qed

end
