(* ===== verification/WaitOrder.thy ===== *)
theory WaitOrder
  imports StageFailures Supervisor
begin

text \<open>
  The order of the supervisor's completion and its child's exit, with any
  failure in the environment. The supervisor's only child is pid 1, so its
  \<open>wait(NULL)\<close> (line 114) returns only once pid 1 has exited, or at once when
  it never forked. The invariant \<open>wait_ok\<close> says that a supervisor past its
  \<open>wait\<close> has no child or a dead one; its own steps keep it because
  \<open>do_wait\<close> checks exactly that, the other processes' steps leave the
  supervisor untouched, and a dead child takes no step.
\<close>

definition waited :: "sys \<Rightarrow> bool" where
  "waited s \<longleftrightarrow> code (procs s ! 0) = L115 \<or> code (procs s ! 0) = L118 \<or> pexit (procs s ! 0) \<noteq> None"

definition wait_ok :: "sys \<Rightarrow> bool" where
  "wait_ok s \<longleftrightarrow> (waited s \<longrightarrow> length (procs s) = 1 \<or> pexit (procs s ! 1) \<noteq> None)"

lemma wait_ok_other:
  assumes "wait_ok s" "untouched i s s'" "i < length (procs s)" "i \<noteq> 0" "pexit (procs s ! i) = None"
  shows "wait_ok s'"
proof -
  have z: "0 < length (procs s)" using assms(3) by arith
  have s0: "procs s' ! 0 = procs s ! 0" using assms(2,4) z by (simp add: untouched_def)
  show ?thesis
  proof (cases "waited s")
    case True
    then have d: "pexit (procs s ! 1) \<noteq> None" "1 < length (procs s)"
      using assms(1,3,4) by (auto simp: wait_ok_def)
    then have "procs s' ! 1 = procs s ! 1" using assms(2,5) by (auto simp: untouched_def)
    then show ?thesis using d s0 by (simp add: wait_ok_def waited_def)
  next
    case False
    then show ?thesis using s0 by (simp add: wait_ok_def waited_def)
  qed
qed

lemma wait_ok_sup:
  assumes "reach c s" "wait_ok s" "pexit (procs s ! 0) = None"
    and ex: "exec_loc c 0 (code (procs s ! 0)) s = Some s'"
  shows "wait_ok s'"
proof -
  have n: "0 < length (procs s)" using reach_inv [OF assms(1)] by (simp add: proc_inv_def)
  have u: "untouched 0 s s'" by (rule exec_loc_frame [OF n ex])
  have ro: "role (code (procs s ! 0)) = 0" and pf: "prefork (code (procs s ! 0)) \<Longrightarrow> length (procs s) = 1"
    using reach_inv [OF assms(1)] n assms(3) by (auto simp: proc_inv_def proc_ok_def)
  have l: "code (procs s ! 0) \<in> {L52, L58, L114, L115, L118}"
    using ro by (cases "code (procs s ! 0)" rule: role.cases) simp_all
  from exec_loc_length [OF ex] show ?thesis
  proof
    assume "code (procs s ! 0) \<in> {L58, L67, L77} \<and> \<not> fails c (code (procs s ! 0))
      \<and> length (procs s') = Suc (length (procs s))"
    then have "code (procs s ! 0) = L58" "\<not> fails c L58" using l by auto
    then have "s' = goto 0 L114 (fork_proc 0 L62 s)" using ex by (simp add: do_fork_def)
    then show ?thesis using n assms(3) by (simp add: wait_ok_def waited_def kernel_simps nth_append)
  next
    assume same: "length (procs s') = length (procs s)"
    show ?thesis
    proof (cases "length (procs s) = 1")
      case True
      then show ?thesis using same by (simp add: wait_ok_def)
    next
      case False
      then have m: "1 < length (procs s)" using n by arith
      then have s1: "procs s' ! 1 = procs s ! 1" using u by (simp add: untouched_def)
      have "pexit (procs s ! 1) \<noteq> None"
      proof (cases "code (procs s ! 0) = L114")
        case True
        then have "do_wait 0 L115 s = Some s'" using ex by simp
        then show ?thesis using children_sup [OF assms(1) m] by (simp add: do_wait_def split: if_splits)
      next
        case False
        then have "waited s" using l pf m by (auto simp: waited_def)
        then show ?thesis using assms(2) m by (simp add: wait_ok_def)
      qed
      then show ?thesis using s1 by (simp add: wait_ok_def)
    qed
  qed
qed

lemma wait_ok_step: "reach c s \<Longrightarrow> wait_ok s \<Longrightarrow> pstep c i s = Some s' \<Longrightarrow> wait_ok s'"
  by (cases "i = 0")
     (auto simp: pstep_def split: if_splits intro: wait_ok_sup wait_ok_other exec_loc_frame)

lemma reach_wait_ok: "reach c s \<Longrightarrow> wait_ok s"
proof (induction rule: reach.induct)
  case start
  then show ?case by (simp add: wait_ok_def waited_def init_sys_def)
next
  case (extend s s')
  then show ?case by (auto elim: step_elim intro: wait_ok_step)
qed

section \<open>The child exits before the completion message\<close>

text \<open>
  C16. In every interleaving and whatever fails, once the supervisor has
  forked its child and got past \<open>wait(NULL)\<close> (it is at line 115 about to
  print "commands completed", at \<open>return 0\<close>, or has exited), the child has
  already exited. So everything the child writes, its count or its
  diagnostic, is written before "commands completed".
\<close>

theorem child_exits_before_completion:
  assumes "reach c s" "1 < length (procs s)"
    and "code (procs s ! 0) = L115 \<or> code (procs s ! 0) = L118 \<or> pexit (procs s ! 0) \<noteq> None"
  shows "pexit (procs s ! 1) \<noteq> None"
  using reach_wait_ok [OF assms(1)] assms(2,3) by (auto simp: wait_ok_def waited_def)

end
