(* ===== verification/Spec2Isabelle.thy ===== *)
theory Spec2Isabelle
  imports Wiring Scenarios Termination ErrorPaths Dataflow ExitStatus Supervisor StageFailures WaitOrder
begin

text \<open>
  \<^bold>\<open>A verification library for src/Program1/Cpp/processes.cpp\<close>

  The program builds the shell pipeline \<open>ps aux | grep t | wc -l\<close> by hand. Its
  only function, \<open>main\<close> (lines 48 to 119), checks \<open>argc\<close>, forks a child; the
  child creates a pipe in \<open>fds[0]\<close> and forks a grandchild; the grandchild
  creates a pipe in \<open>fds[1]\<close> and forks a great-grandchild. Each process then
  rewires its standard input and output with \<open>dup2\<close>, closes the descriptors it
  does not use and replaces itself with a command: the great-grandchild with
  \<open>ps aux\<close>, the grandchild with \<open>grep t\<close>, the child with \<open>wc -l\<close>. The
  supervisor waits for its child and prints "commands completed". The parts of
  the system are the descriptor table and its system calls, the kernel's
  processes and pipes, the three external commands, and \<open>main\<close>; they interact
  through the kernel state: descriptors inherited at \<open>fork\<close>, pipe buffers, and
  the parent link that \<open>wait\<close> observes.

  \<^bold>\<open>Theories.\<close>
  \<^item> \<open>Prelude\<close>: lists as kernel arrays (\<open>slot_get\<close>, \<open>slot_set\<close>, the lowest
    free slot \<open>first_free\<close>), \<open>keep\<close> for a system call whose error the code
    ignores, \<open>unwords\<close> for command lines.
  \<^item> \<open>FdTable\<close>: the descriptor table of a process (\<open>ofile option list\<close>) and
    POSIX \<open>pipe\<close> (\<open>fd_pipe\<close>, lowest free descriptors first), \<open>close\<close>
    (\<open>fd_close\<close>) and \<open>dup2\<close> (\<open>fd_dup2\<close>) with \<open>EBADF\<close> as an error value. The
    lemmas prove that the list implementation refines the map semantics
    (\<open>close_refines\<close>, \<open>dup2_refines\<close>, \<open>pipe_refines\<close>). These calls
    are the program's environment, not its code; \<open>main\<close>'s call sites are
    \<open>do_pipe\<close>, \<open>do_close\<close> and \<open>do_dup2\<close>.
  \<^item> \<open>Kernel\<close>: a process record (program point, exit status, descriptors, the
    C array \<open>fds\<close>, command line, parent), the kernel state (process table indexed
    by pid, pipe buffers, terminal output), \<open>fork\<close>, \<open>exit\<close> (which closes all
    descriptors), \<open>read\<close> and \<open>write\<close> on descriptors with end of file, blocking,
    \<open>EBADF\<close> and \<open>SIGPIPE\<close>. \<open>exit(-1)\<close> is reported as the 8-bit status 255.
  \<^item> \<open>Commands\<close>: \<open>ps aux\<close>, \<open>grep\<close> and \<open>wc -l\<close> one line per step, modelled
    from the spec (they are not code of the repository).
  \<^item> \<open>Processes\<close>: \<open>main\<close> as \<open>exec_loc\<close>, one equation per statement, the
    program points \<open>loc\<close> named by source line; \<open>pstep\<close> runs one process;
    \<open>step\<close> is the interleaving of all processes and \<open>reach\<close> its reachable
    states; \<open>run\<close> follows a given schedule. The environment's failures of
    \<open>fork\<close>, \<open>pipe\<close> and \<open>execlp\<close> are the configuration's \<open>fails\<close>.
  \<^item> \<open>Invariant\<close>: the state of every live process is the one its program point
    determines (a replay of the descriptor operations before that point), pid
    \<open>i\<close> runs the code of role \<open>i\<close> and is the child of \<open>i - 1\<close>, and dead
    processes hold no descriptor; proved for every interleaving (\<open>reach_inv\<close>).
  \<^item> \<open>Wiring\<close>: the table each stage runs its command with, and what happens to
    it when descriptor 0 is closed at start.
  \<^item> \<open>Scenarios\<close>: concrete runs evaluated by the simplifier, for witnesses.
  \<^item> \<open>Liveness\<close>: which process can step; the pipe ends each point holds.
  \<^item> \<open>Termination\<close>: a measure \<open>msr\<close> that every step decreases. It counts
    three units per statement left to each live process and to the processes it
    will fork, and three per line \<open>ps\<close> has still to write. It adds two units
    per line in the grandchild's pipe and one per line in the child's pipe.
    The step relation is therefore well-founded on reachable states.
  \<^item> \<open>ErrorPaths\<close>: the runs with a wrong argument count and with a failing
    first \<open>fork\<close>.
  \<^item> \<open>Dataflow\<close>: an invariant \<open>df\<close> relating the pipe buffers, the commands'
    progress and the terminal output, from which the output of a complete run
    follows.
  \<^item> \<open>ExitStatus\<close>: the invariant \<open>statuses_ok\<close>: an exited process's
    status agrees with the statement where it stopped (\<open>exit_ok\<close>).
  \<^item> \<open>Supervisor\<close>: a step changes no other process's entry
    (\<open>exec_loc_frame\<close>), and the supervisor's exit status.
  \<^item> \<open>StageFailures\<close>: the invariant \<open>codes_ok\<close>. Every process is at a
    point whose earlier \<open>pipe\<close>, \<open>fork\<close> and \<open>execlp\<close> calls
    (\<open>calls_before\<close>) all succeeded. It gives the bound \<open>fork_bound\<close> on
    the number of processes when a call of the chain fails.
  \<^item> \<open>WaitOrder\<close>: the invariant \<open>wait_ok\<close> relating the supervisor's
    \<open>wait\<close> to its child's exit.

  \<^bold>\<open>What is shown.\<close> Every property holds for every interleaving of the four
  processes (the reachable states of \<open>step\<close>).
  \<^item> C1 to C3 (\<open>Wiring\<close>): with descriptors 0 and 1 open at start, each stage
    runs its command with the inherited table, standard input and output
    replaced by the right pipe ends and no other pipe end.
  \<^item> C4 (\<open>Liveness\<close>): while a process lives, some process can step.
  \<^item> C5 (\<open>Termination\<close>): every reachable state extends to one with no step
    and all processes exited, whatever fails. No fuel is used: \<open>step\<close> is a
    relation, and the measure makes it well-founded.
  \<^item> C4 and C5 assume that the inherited descriptors hold no pipe end
    (\<open>terms_only\<close>). An invocation such as \<open>./processes t | cat\<close> is outside
    the model, because the reader of an inherited pipe is not one of its
    processes.
  \<^item> C6, C7 (\<open>ErrorPaths\<close>): the usage error exits with 255 after one line on
    descriptor 2. A failing first \<open>fork\<close> prints "fork error" and returns 0.
  \<^item> C8 to C10 (\<open>Dataflow\<close>): these assume that nothing fails
    (\<open>fault_free\<close>). A complete run prints the count of matching snapshot lines,
    then "commands completed". The count is at least 2. The supervisor's single
    \<open>wait\<close> is reached only after all three stages exited.
  \<^item> C11 (\<open>Wiring\<close>): with descriptor 0 closed at start, \<open>wc\<close> and \<open>grep\<close>
    run with descriptor 0 closed and their reads fail.
  \<^item> C12 (\<open>Invariant\<close>): the processes form the fork chain, pid \<open>i\<close> the
    child of \<open>i - 1\<close>, and exited processes hold no descriptor.
  \<^item> C13 (\<open>ExitStatus\<close>): an exited process's status is fixed by the
    statement where it stopped. It is 0 after \<open>return 0\<close>, and 255 (the low
    byte of \<open>exit(-1)\<close>) or \<open>SIGPIPE\<close> at the usage check and every
    \<open>perror\<close> path. A command exits with 0, 1, 2 or \<open>SIGPIPE\<close>.
  \<^item> C14 (\<open>Supervisor\<close>): with \<open>argc == 2\<close> the program exits with 0 in every
    run, even when a stage's \<open>pipe\<close>, \<open>fork\<close> or \<open>execlp\<close> fails. This is
    the status gap that the spec notes in sections 6 and 9.
  \<^item> C15 (\<open>StageFailures\<close>): a failing \<open>fork\<close> or \<open>pipe\<close> stops the chain.
    One process remains after line 58, at most two after line 62 or 67, and at
    most three after line 72 or 77.
  \<^item> C16 (\<open>WaitOrder\<close>): with any failures, a supervisor that has forked and
    is past \<open>wait\<close> has a dead child. So the child's output precedes
    "commands completed".

  \<^bold>\<open>Findings.\<close>
  \<^item> Line 59: a failing first \<open>fork\<close> still ends with status 0 (C7).
  \<^item> Line 46: the doc comment of \<open>main\<close> promises a non-zero exit when any
    part fails. The program exits 0 whenever \<open>argc == 2\<close> (C14).
  \<^item> Line 88: in a run where nothing fails, \<open>ps\<close> always lists the
    supervisor and the grandchild, so the count is never below 2 (C9).
  \<^item> Lines 96 and 107: with descriptor 0 closed at start, \<open>pipe\<close> hands out
    descriptor 0. The \<open>close(fds[..][0])\<close> after a no-op \<open>dup2\<close> then closes
    standard input (C11).

  \<^bold>\<open>Not modelled.\<close>
  \<^item> Lines 1 to 47 of processes.cpp are the header comment and the includes. Every
    statement of \<open>main\<close> (lines 48 to 119) is modelled.
  \<^item> The external commands' real implementations; their behaviour is the
    spec's.
  \<^item> Regular expressions in \<open>grep\<close>; the pattern is matched as a fixed string.
  \<^item> Pipe capacity. Buffers are unbounded, so writers never block. The pipeline
    has no cycle, so capacity cannot add a deadlock, but the model does not
    prove that.
  \<^item> The fields of \<open>ps\<close> lines other than the command.
  \<^item> The \<open>strerror\<close> text that \<open>perror\<close> appends.
  \<^item> Reading a terminal; it is treated as an empty file.
  \<^item> Orphan re-parenting and reaping, which no statement of \<open>main\<close> observes.
\<close>

section \<open>Witnesses\<close>

lemma demo_std_open: "std_open demo_cfg"
  by (simp add: std_open_def demo_cfg_def slot_get_def)

lemma demo_init_map:
  "slot_get (init_fdt demo_cfg) = [0 \<mapsto> Term 0, 1 \<mapsto> Term 1, 2 \<mapsto> Term 2]"
  by (auto simp: demo_cfg_def slot_get_def fun_eq_iff nth_Cons')

theorem wc_stage_wiring_witness:
  "reach demo_cfg demo_running \<and> std_open demo_cfg \<and> 1 < length (procs demo_running)
   \<and> code (procs demo_running ! 1) = Ext (Wc 0)
   \<and> slot_get (fdt (procs demo_running ! 1)) = [0 \<mapsto> PipeR (1, 0), 1 \<mapsto> Term 1, 2 \<mapsto> Term 2]"
proof -
  have "1 = (1::nat) \<and> slot_get (fdt (procs demo_running ! 1)) = (slot_get (init_fdt demo_cfg))(0 \<mapsto> PipeR (1, 0))"
    by (rule wc_stage_wiring [OF demo_running_reach demo_std_open, where i = 1 and n = 0])
      (use demo_running_procs in \<open>simp_all add: One_nat_def\<close>)
  then show ?thesis
    using demo_running_reach demo_std_open demo_running_procs by (simp add: demo_init_map fun_upd_twist)
qed

theorem grep_stage_wiring_witness:
  "reach demo_cfg demo_running \<and> std_open demo_cfg \<and> 2 < length (procs demo_running)
   \<and> code (procs demo_running ! 2) = Ext (Grep ''bash'' False)
   \<and> slot_get (fdt (procs demo_running ! 2)) = [0 \<mapsto> PipeR (2, 1), 1 \<mapsto> PipeW (1, 0), 2 \<mapsto> Term 2]"
proof -
  have "2 = (2::nat) \<and> slot_get (fdt (procs demo_running ! 2))
      = (slot_get (init_fdt demo_cfg))(0 \<mapsto> PipeR (2, 1), 1 \<mapsto> PipeW (1, 0))"
    by (rule grep_stage_wiring [OF demo_running_reach demo_std_open, where i = 2 and t = "''bash''" and b = False]) (simp_all add: demo_running_procs)
  then show ?thesis
    using demo_running_reach demo_std_open demo_running_procs by (simp add: demo_init_map fun_upd_twist)
qed

theorem ps_stage_wiring_witness:
  "reach demo_cfg demo_running \<and> std_open demo_cfg \<and> 3 < length (procs demo_running)
   \<and> pexit (procs demo_running ! 3) = None
   \<and> slot_get (fdt (procs demo_running ! 3)) = [0 \<mapsto> Term 0, 1 \<mapsto> PipeW (2, 1), 2 \<mapsto> Term 2]"
proof -
  obtain ls k where ps: "code (procs demo_running ! 3) = Ext (Ps ls k)"
    using demo_running_procs by blast
  have "3 = (3::nat) \<and> slot_get (fdt (procs demo_running ! 3)) = (slot_get (init_fdt demo_cfg))(1 \<mapsto> PipeW (2, 1))"
    by (rule ps_stage_wiring [OF demo_running_reach demo_std_open _ _ ps]) (simp_all add: demo_running_procs)
  then show ?thesis
    using demo_running_reach demo_std_open demo_running_procs by (simp add: demo_init_map fun_upd_twist)
qed

lemma demo_terms_only: "terms_only demo_cfg"
  by (simp add: terms_only_def demo_cfg_def)

theorem progress_witness:
  "reach demo_cfg demo_running \<and> terms_only demo_cfg \<and> pexit (procs demo_running ! 3) = None
   \<and> (\<exists>s'. step demo_cfg demo_running s')"
proof -
  have "\<exists>i<length (procs demo_running). pexit (procs demo_running ! i) = None"
    using demo_running_procs by (intro exI [of _ 3]) simp
  then show ?thesis
    using progress [OF demo_running_reach demo_terms_only] demo_running_reach demo_terms_only demo_running_procs
    by simp
qed

theorem run_completes_witness:
  "reach demo_cfg demo_running \<and> terms_only demo_cfg
   \<and> (\<exists>s'. (step demo_cfg)\<^sup>*\<^sup>* demo_running s' \<and> (\<forall>s''. \<not> step demo_cfg s' s'')
        \<and> (\<forall>i < length (procs s'). pexit (procs s' ! i) \<noteq> None))"
  using run_completes [OF demo_running_reach demo_terms_only] demo_running_reach demo_terms_only by simp

lemma demo_fault_free: "fault_free demo_cfg"
  using demo_std_open demo_terms_only by (simp add: fault_free_def demo_cfg_def)

lemma demo_term1: "term1 demo_cfg = 1"
  by (simp add: term1_def demo_cfg_def slot_get_def)

theorem pipeline_output_witness:
  "reach demo_cfg demo_final \<and> fault_free demo_cfg
   \<and> length (procs demo_final) = 4 \<and> pexit (procs demo_final ! 3) \<noteq> None
   \<and> (\<exists>ls. listing_ok demo_cfg ls \<and> out demo_final = [(1, dec (length (filter (sublist ''bash'') ls))), (1, ''commands completed'')])"
  using pipeline_output [OF demo_complete_reach(2) demo_fault_free demo_complete(5)]
    demo_complete_reach(2) demo_fault_free demo_complete(4) demo_complete(5) [rule_format, of 3] demo_term1
  by (auto simp: demo_cfg_def)

theorem count_includes_pipeline_witness:
  "reach demo_cfg demo_final \<and> fault_free demo_cfg
   \<and> length (procs demo_final) = 4 \<and> pexit (procs demo_final ! 3) \<noteq> None
   \<and> (\<exists>n. 2 \<le> n \<and> out demo_final = [(1, dec n), (1, ''commands completed'')])"
  using count_includes_pipeline [OF demo_complete_reach(2) demo_fault_free demo_complete(5)]
    demo_complete_reach(2) demo_fault_free demo_complete(4) demo_complete(5) [rule_format, of 3] demo_term1
  by simp

theorem wait_covers_chain_witness:
  "reach demo_cfg demo_waited \<and> fault_free demo_cfg \<and> code (procs demo_waited ! 0) = L115
   \<and> length (procs demo_waited) = 4 \<and> pexit (procs demo_waited ! 3) \<noteq> None"
  using wait_covers_chain [OF demo_complete_reach(1) demo_fault_free demo_complete(2)]
    demo_complete_reach(1) demo_fault_free demo_complete(2)
  by simp

theorem closed_stdin_stages_witness:
  "reach closed0_cfg closed0_running \<and> slot_get (init_fdt closed0_cfg) 0 = None
   \<and> 1 < length (procs closed0_running) \<and> pexit (procs closed0_running ! 1) = None
   \<and> code (procs closed0_running ! 1) = Ext (Wc 0)
   \<and> slot_get (fdt (procs closed0_running ! 1)) 0 = None \<and> fst (read_fd 1 0 closed0_running) = RErr"
proof -
  have r: "reach closed0_cfg closed0_running" by (rule run_reach [OF closed0_running_run reach.start])
  have z: "slot_get (init_fdt closed0_cfg) 0 = None" by (simp add: closed0_cfg_def slot_get_def)
  show ?thesis
    using Wiring.closed_stdin_stages [OF r z _ _ disjI1, of 1 0] r z closed0_running_procs by simp
qed

theorem process_tree_witness:
  "reach demo_cfg demo_running \<and> length (procs demo_running) = 4
   \<and> ppid (procs demo_running ! 3) = Some 2 \<and> role (code (procs demo_running ! 3)) = 3"
  using Invariant.process_tree [OF demo_running_reach] demo_running_reach demo_running_procs
  by auto

theorem supervisor_exit_zero_witness:
  "reach execfail_cfg execfail_final \<and> length (argv execfail_cfg) = 2 \<and> terms_only execfail_cfg
   \<and> fails execfail_cfg L108 \<and> pexit (procs execfail_final ! 1) = Some (Exited 255)
   \<and> pexit (procs execfail_final ! 0) = Some (Exited 0)"
proof -
  have r: "reach execfail_cfg execfail_final" by (rule run_reach [OF execfail_final_run reach.start])
  have a: "length (argv execfail_cfg) = 2" "terms_only execfail_cfg" "fails execfail_cfg L108"
    by (simp_all add: execfail_cfg_def demo_cfg_def terms_only_def)
  have "Exited 0 = Exited 0"
    by (rule Supervisor.supervisor_exit_zero [OF r a(1,2) execfail_final_procs(2)])
  then show ?thesis using r a execfail_final_procs by simp
qed

theorem fork_failure_bounds_chain_witness:
  "reach forkfail67_cfg forkfail67_final \<and> fork_bound forkfail67_cfg = 2
   \<and> length (procs forkfail67_final) = 2 \<and> pexit (procs forkfail67_final ! 1) = Some (Exited 255)"
proof -
  have r: "reach forkfail67_cfg forkfail67_final" by (rule run_reach [OF forkfail67_final_run reach.start])
  have b: "fork_bound forkfail67_cfg = 2" by (simp add: fork_bound_def forkfail67_cfg_def demo_cfg_def)
  have "length (procs forkfail67_final) \<le> 2"
    using StageFailures.fork_failure_bounds_chain [OF r] b by simp
  then show ?thesis using r b forkfail67_final_procs by simp
qed

theorem child_exits_before_completion_witness:
  "reach execfail_cfg execfail_final \<and> 1 < length (procs execfail_final)
   \<and> pexit (procs execfail_final ! 0) = Some (Exited 0)
   \<and> pexit (procs execfail_final ! 1) \<noteq> None"
proof -
  have r: "reach execfail_cfg execfail_final" by (rule run_reach [OF execfail_final_run reach.start])
  have n: "1 < length (procs execfail_final)" using execfail_final_procs(1) by simp
  have "pexit (procs execfail_final ! 1) \<noteq> None"
    by (rule WaitOrder.child_exits_before_completion [OF r n]) (simp add: execfail_final_procs(2))
  then show ?thesis using r n execfail_final_procs(2) by simp
qed

theorem exit_status_by_point_witness:
  "reach execfail_cfg execfail_final
   \<and> code (procs execfail_final ! 1) = L108 \<and> pexit (procs execfail_final ! 1) = Some (Exited 255)
   \<and> code (procs execfail_final ! 0) = L118 \<and> pexit (procs execfail_final ! 0) = Some (Exited 0)"
proof -
  have r: "reach execfail_cfg execfail_final" by (rule run_reach [OF execfail_final_run reach.start])
  have n: "1 < length (procs execfail_final)" using execfail_final_procs(1) by simp
  have "Exited 255 = Exited 255 \<or> Exited 255 = Signaled 13"
    using ExitStatus.exit_status_by_point [OF r n execfail_final_procs(3)] execfail_final_procs(6) by simp
  then show ?thesis using r execfail_final_procs by simp
qed

end
